(* ===== verification/AsyncPrelude.thy ===== *)
theory AsyncPrelude
  imports Main "HOL-Library.Sublist" "HOL-Library.Monad_Syntax"
begin

text \<open>
  Shared vocabulary of the development: the exceptions the C++ code throws, the payload
  types that travel between loaders, savers and the file manager, the named collections
  of rewrite rules, and generic list lemmas.

  C++ \<open>char\<close> is the 8-bit HOL \<open>char\<close>, so \<open>std::string\<close> and
  \<open>std::vector<char>\<close> are both \<open>char list\<close>. A \<open>shared_ptr\<close> that may be null is
  an \<open>option\<close>; \<open>outcome::result<T>\<close> is a sum with the error on the left.
\<close>

named_theorems str_simps "evaluation of std::string searches"
named_theorems url_simps "equations of the URL parsers"
named_theorems step_simps "equations of the asynchronous handlers"
named_theorems path_simps "std::filesystem::path on POSIX"

section \<open>Exceptions\<close>

text \<open>
  The exceptions the sources throw or let through, by C++ type. \<open>Undefined_behaviour\<close>
  is not an exception: it marks the branches where the C++ standard gives no meaning
  (an \<open>end()\<close> iterator dereferenced, a vector read out of range).
\<close>

datatype exn =
    Range_error string
  | Runtime_error string
  | Out_of_range
  | System_error
  | Filesystem_error
  | Std_exception
  | Unknown_exception
  | Undefined_behaviour

section \<open>Payloads\<close>

text \<open>
  \<open>std::pair<std::vector<std::string>, std::vector<std::vector<char>>>\<close>: the names
  and the contents of the files of one load or save.
\<close>

type_synonym bytes = "char list"
type_synonym buffers = "string list \<times> bytes list"

text \<open>\<open>outcome::result<std::shared_ptr<...>>\<close>: an error or a possibly null pointer.\<close>

type_synonym 'e result_type = "'e + buffers option"

section \<open>Lists\<close>

lemma prefix_single_iff [str_simps]: "prefix [c] s \<longleftrightarrow> s \<noteq> [] \<and> hd s = c"
  by (cases s) auto

lemma filter_concat_map_length:
  "length (filter P (concat xss)) = sum_list (map (\<lambda>xs. length (filter P xs)) xss)"
  by (induction xss) auto

lemma takeWhile_dropWhile_neq:
  "c \<in> set s \<Longrightarrow> s = takeWhile (\<lambda>x. x \<noteq> c) s @ c # tl (dropWhile (\<lambda>x. x \<noteq> c) s)"
  by (induction s) auto

lemma last_notin_split:
  "c \<in> set s \<Longrightarrow> \<exists>a b. s = a @ c # b \<and> c \<notin> set b"
  using split_list_last by fast

lemma set_remove_nth:
  "distinct xs \<Longrightarrow> k < length xs \<Longrightarrow> set (take k xs @ drop (Suc k) xs) = set xs - {xs ! k}"
  "distinct xs \<Longrightarrow> distinct (take k xs @ drop (Suc k) xs)"
proof -
  assume d: "distinct xs"
  have split: "k < length xs \<Longrightarrow> xs = take k xs @ xs ! k # drop (Suc k) xs" by (rule id_take_nth_drop)
  show "k < length xs \<Longrightarrow> set (take k xs @ drop (Suc k) xs) = set xs - {xs ! k}"
  proof -
    assume k: "k < length xs"
    with d split have "distinct (take k xs @ xs ! k # drop (Suc k) xs)" by simp
    with split[OF k] show ?thesis
      by (metis (no_types, lifting) Diff_insert_absorb Un_insert_right distinct.simps(2)
          distinct_append insert_absorb list.simps(15) not_distinct_conv_prefix set_append
          UnE disjoint_iff insert_iff)
  qed
  show "distinct (take k xs @ drop (Suc k) xs)"
  proof (cases "k < length xs")
    case True
    with d split have "distinct (take k xs @ xs ! k # drop (Suc k) xs)" by simp
    then show ?thesis by auto
  qed (use d in simp)
qed

lemma length_filter_update:
  "i < length xs \<Longrightarrow> length (filter P (xs[i := y])) + (if P (xs ! i) then 1 else 0) =
     length (filter P xs) + (if P y then 1 else 0)"
proof (induction xs arbitrary: i)
  case (Cons x xs)
  then show ?case by (cases i) auto
qed simp

end
