(* ===== verification/AsioContext.thy ===== *)
theory AsioContext
  imports AsyncPrelude
begin

text \<open>
  What the sources use of \<open>boost::asio\<close> and \<open>boost::system\<close>: error codes, the
  deadline timer, asynchronous operations and their completion handlers. A handler of the
  code is a HOL function from the state of its device to the new state and the list of
  actions it takes, in order; the captured variables of a lambda are the arguments of the
  constructor that stands for the pending operation. The scheduler and the network are
  the list of events a run is given: nothing is assumed about their order.
\<close>

section \<open>boost::system::error_code\<close>

datatype error_category = System_category | Misc_category

record error_code =
  ec_value :: int
  ec_category :: error_category

text \<open>\<open>if (ec)\<close>: an error code is true when its value is not zero.\<close>

definition ec_failed :: "error_code \<Rightarrow> bool" where
  "ec_failed ec \<longleftrightarrow> ec_value ec \<noteq> 0"

definition ec_success :: error_code where
  "ec_success = \<lparr>ec_value = 0, ec_category = System_category\<rparr>"

text \<open>\<open>boost::asio::error::eof\<close> is value 2 of the misc category, \<open>operation_aborted\<close> is ECANCELED.\<close>

definition ec_eof :: error_code where
  "ec_eof = \<lparr>ec_value = 2, ec_category = Misc_category\<rparr>"

definition ec_operation_aborted :: error_code where
  "ec_operation_aborted = \<lparr>ec_value = 125, ec_category = System_category\<rparr>"

text \<open>
  \<open>boost::asio::error::not_found\<close>, value 3 of the misc category: what \<open>async_connect\<close>
  reports for an empty range of endpoints.
\<close>

definition ec_not_found :: error_code where
  "ec_not_found = \<lparr>ec_value = 3, ec_category = Misc_category\<rparr>"

lemma ec_simps [simp]:
  "\<not> ec_failed ec_success" "ec_failed ec_eof" "ec_failed ec_operation_aborted" "ec_failed ec_not_found"
  "ec_operation_aborted \<noteq> ec_eof" "ec_success \<noteq> ec_eof"
  by (simp_all add: ec_failed_def ec_success_def ec_eof_def ec_operation_aborted_def ec_not_found_def)

section \<open>Actions of a handler\<close>

text \<open>
  \<open>Handle_read\<close> is a direct call of the completion callback with its result and the
  parse and save flags, \<open>Post_read\<close> the same call posted to the io_context;
  \<open>Handle_write\<close> and \<open>Post_write\<close> are those of a saver's callback. \<open>Io\<close> is any other
  effect of the device.
\<close>

datatype ('e, 'x) act =
    Handle_read "'e result_type" bool bool
  | Post_read "'e result_type" bool bool
  | Handle_write
  | Post_write
  | Io 'x

fun completion :: "('e, 'x) act \<Rightarrow> bool" where
  "completion (Io _) = False"
| "completion _ = True"

definition completions :: "('e, 'x) act list \<Rightarrow> nat" where
  "completions as = length (filter completion as)"

lemma completions_simps [simp, step_simps]:
  "completions [] = 0"
  "completions (a # as) = (if completion a then 1 else 0) + completions as"
  "completions (as @ bs) = completions as + completions bs"
  by (simp_all add: completions_def)

section \<open>Runs\<close>

fun dev_run :: "('s \<Rightarrow> 'ev \<Rightarrow> 's \<times> 'a list) \<Rightarrow> 's \<Rightarrow> 'ev list \<Rightarrow> 's \<times> 'a list" where
  "dev_run step s [] = (s, [])"
| "dev_run step s (e # es) =
     (let (s1, as) = step s e; (s2, bs) = dev_run step s1 es in (s2, as @ bs))"

lemma dev_run_Cons_eq:
  "dev_run step s (e # es) = (s2, cs) \<longleftrightarrow>
     (\<exists>s1 as bs. step s e = (s1, as) \<and> dev_run step s1 es = (s2, bs) \<and> cs = as @ bs)"
  by (auto split: prod.splits)

lemma dev_run_append:
  "dev_run step s (es @ fs) =
     (let (s1, as) = dev_run step s es; (s2, bs) = dev_run step s1 fs in (s2, as @ bs))"
  by (induction es arbitrary: s) (auto split: prod.splits)

text \<open>
  An invariant kept by every step on the events of a class is kept by every run of such
  events, and a property of the actions of those steps holds for the actions of the run.
\<close>

lemma dev_run_invariant:
  assumes "dev_run step s es = (s', as)" and "I s" and "\<forall>e\<in>set es. Q e"
    and "\<And>s e s' as. I s \<Longrightarrow> Q e \<Longrightarrow> step s e = (s', as) \<Longrightarrow> I s'"
  shows "I s'"
  using assms(1-3)
proof (induction es arbitrary: s as)
  case (Cons e es)
  then obtain s1 a1 b1 where "step s e = (s1, a1)" "dev_run step s1 es = (s', b1)"
    unfolding dev_run_Cons_eq by blast
  with assms(4) Cons show ?case by (metis list.set_intros)
qed simp

lemma dev_run_actions:
  assumes "dev_run step s es = (s', as)" and "I s" and "\<forall>e\<in>set es. Q e" and "a \<in> set as"
    and "\<And>s e s' as. I s \<Longrightarrow> Q e \<Longrightarrow> step s e = (s', as) \<Longrightarrow> I s'"
    and "\<And>s e s' as a. I s \<Longrightarrow> Q e \<Longrightarrow> step s e = (s', as) \<Longrightarrow> a \<in> set as \<Longrightarrow> P a"
  shows "P a"
  using assms(1-4)
proof (induction es arbitrary: s as)
  case (Cons e es)
  then obtain s1 a1 b1 where st: "step s e = (s1, a1)" "dev_run step s1 es = (s', b1)"
      and as: "as = a1 @ b1"
    unfolding dev_run_Cons_eq by blast
  have e: "Q e" "\<forall>e\<in>set es. Q e" using Cons.prems(3) by auto
  from as Cons.prems(4) consider "a \<in> set a1" | "a \<in> set b1" by auto
  then show ?case
  proof cases
    case 1
    with assms(6) Cons.prems(2) e(1) st(1) show ?thesis by blast
  next
    case 2
    with Cons.IH[OF st(2)] assms(5) Cons.prems(2) e st(1) show ?thesis by blast
  qed
qed simp

text \<open>The same for invariants that also speak of the actions taken so far.\<close>

lemma dev_run_history:
  assumes "dev_run step s es = (s', as)" and "I s h" and "\<forall>e\<in>set es. Q e"
    and "\<And>s h e s' as. I s h \<Longrightarrow> Q e \<Longrightarrow> step s e = (s', as) \<Longrightarrow> I s' (h @ as)"
  shows "I s' (h @ as)"
  using assms(1-3)
proof (induction es arbitrary: s h as)
  case (Cons e es)
  then obtain s1 a1 b1 where st: "step s e = (s1, a1)" "dev_run step s1 es = (s', b1)"
      and as: "as = a1 @ b1"
    unfolding dev_run_Cons_eq by blast
  have "I s1 (h @ a1)" using Cons.prems(3) by (intro assms(4)[OF Cons.prems(2) _ st(1)]) simp
  from Cons.IH[OF st(2) this] Cons.prems(3) as show ?case by simp
qed simp

section \<open>An operation, abstractly\<close>

text \<open>
  The specification of one operation: it runs until it reports once and is over. The label
  of a step is the number of reports made in it.
\<close>

datatype op_state = Op_running | Op_over

inductive op_step :: "op_state \<Rightarrow> nat \<Rightarrow> op_state \<Rightarrow> bool" where
  op_silent: "op_step st 0 st"
| op_reports: "op_step Op_running 1 Op_over"

inductive_cases op_stepE: "op_step st n st'"

inductive op_run :: "op_state \<Rightarrow> nat list \<Rightarrow> op_state \<Rightarrow> bool" where
  op_nil: "op_run st [] st"
| op_cons: "op_step st n st1 \<Longrightarrow> op_run st1 ns st2 \<Longrightarrow> op_run st (n # ns) st2"

lemma op_run_reports:
  "op_run st ns st' \<Longrightarrow> sum_list ns = (if st = Op_running \<and> st' = Op_over then 1 else 0) \<and>
     (st = Op_over \<longrightarrow> st' = Op_over)"
proof (induction rule: op_run.induct)
  case (op_cons st n st1 ns st2)
  then show ?case by (auto elim!: op_stepE split: if_splits)
qed simp

text \<open>The reports of a device, handler by handler.\<close>

fun dev_reports :: "('s \<Rightarrow> 'ev \<Rightarrow> 's \<times> ('e, 'x) act list) \<Rightarrow> 's \<Rightarrow> 'ev list \<Rightarrow> nat list" where
  "dev_reports step s [] = []"
| "dev_reports step s (e # es) = (let (s1, as) = step s e in completions as # dev_reports step s1 es)"

section \<open>The completion contract\<close>

text \<open>
  What the file manager needs of a device: while the device is live every handler either
  keeps it live and calls nobody, or ends it with exactly one call of the completion
  callback; an ended device stays silent. \<open>wf\<close> is the device's own invariant. The file
  manager's operation counter is right exactly under this contract.
\<close>

locale one_shot =
  fixes step :: "'s \<Rightarrow> 'ev \<Rightarrow> 's \<times> ('e, 'x) act list"
    and wf :: "'s \<Rightarrow> bool"
    and live :: "'s \<Rightarrow> bool"
  assumes wf_step: "wf s \<Longrightarrow> step s e = (s', as) \<Longrightarrow> wf s'"
    and live_step:
      "wf s \<Longrightarrow> live s \<Longrightarrow> step s e = (s', as) \<Longrightarrow> completions as = (if live s' then 0 else 1)"
    and dead_step:
      "wf s \<Longrightarrow> \<not> live s \<Longrightarrow> step s e = (s', as) \<Longrightarrow> \<not> live s' \<and> completions as = 0"
begin

lemma wf_run: "wf s \<Longrightarrow> dev_run step s es = (s', as) \<Longrightarrow> wf s'"
  by (rule dev_run_invariant[where Q = "\<lambda>_. True"]) (auto intro: wf_step)

lemma dead_run:
  "wf s \<Longrightarrow> \<not> live s \<Longrightarrow> dev_run step s es = (s', as) \<Longrightarrow> \<not> live s' \<and> completions as = 0"
proof (induction es arbitrary: s as)
  case (Cons e es)
  then obtain s1 a1 b1 where st: "step s e = (s1, a1)" "dev_run step s1 es = (s', b1)"
      and as: "as = a1 @ b1"
    unfolding dev_run_Cons_eq by blast
  from dead_step[OF Cons.prems(1,2) st(1)] Cons.IH[OF wf_step[OF Cons.prems(1) st(1)] _ st(2)] as
  show ?case by simp
qed simp

lemma exactly_once:
  "wf s \<Longrightarrow> live s \<Longrightarrow> dev_run step s es = (s', as) \<Longrightarrow>
   completions as = (if live s' then 0 else 1)"
proof (induction es arbitrary: s as)
  case (Cons e es)
  then obtain s1 a1 b1 where st: "step s e = (s1, a1)" "dev_run step s1 es = (s', b1)"
      and as: "as = a1 @ b1"
    unfolding dev_run_Cons_eq by blast
  have wf: "wf s1" using wf_step[OF Cons.prems(1) st(1)] .
  have now: "completions a1 = (if live s1 then 0 else 1)"
    using live_step[OF Cons.prems(1,2) st(1)] .
  show ?case
  proof (cases "live s1")
    case True
    with Cons.IH[OF wf True st(2)] now as show ?thesis by simp
  next
    case False
    with dead_run[OF wf False st(2)] now as show ?thesis by simp
  qed
qed simp

text \<open>A start that either completes at once or leaves a live device completes once in all.\<close>

lemma started_once:
  assumes "wf s" and "completions as0 = (if live s then 0 else 1)" and "dev_run step s es = (s', as)"
  shows "completions (as0 @ as) = (if live s' then 0 else 1)"
  using assms exactly_once[of s es s' as] dead_run[of s es s' as] by (cases "live s") auto

text \<open>Refinement: every run of the device is a run of the abstract operation.\<close>

definition op_of :: "'s \<Rightarrow> op_state" where
  "op_of s = (if live s then Op_running else Op_over)"

lemma op_of_step:
  assumes "wf s" and "step s e = (s', as)"
  shows "op_step (op_of s) (completions as) (op_of s')"
proof (cases "live s")
  case True
  with live_step[OF assms(1) True assms(2)] show ?thesis
    by (simp add: op_of_def op_silent op_reports[unfolded One_nat_def])
next
  case False
  with dead_step[OF assms(1) False assms(2)] show ?thesis by (simp add: op_of_def op_silent)
qed

lemma simulates:
  "wf s \<Longrightarrow> dev_run step s es = (s', as) \<Longrightarrow> op_run (op_of s) (dev_reports step s es) (op_of s')"
proof (induction es arbitrary: s as)
  case (Cons e es)
  then obtain s1 a1 b1 where st: "step s e = (s1, a1)" "dev_run step s1 es = (s', b1)"
    unfolding dev_run_Cons_eq by blast
  from op_of_step[OF Cons.prems(1) st(1)] Cons.IH[OF wf_step[OF Cons.prems(1) st(1)] st(2)]
  show ?case by (simp add: st(1) op_cons)
qed (simp add: op_nil)

lemma at_most_once: "wf s \<Longrightarrow> dev_run step s es = (s', as) \<Longrightarrow> completions as \<le> 1"
  using exactly_once[of s es s' as] dead_run[of s es s' as] by (cases "live s") auto

end

section \<open>steady_timer deadlines\<close>

text \<open>
  A timer waits until it expires, when its handler is queued with success
  (\<open>Timer_due\<close>), or until it is cancelled, when its handler is queued with
  \<open>operation_aborted\<close>. Cancelling a timer that is already due changes nothing.
\<close>

datatype timer_state = Timer_waiting | Timer_due | Timer_cancelled | Timer_done

text \<open>An asynchronous socket operation: in flight, or finished with its handler queued.\<close>

datatype io_status = In_flight | Ready error_code bytes

definition cancel_io :: "io_status \<Rightarrow> io_status" where
  "cancel_io st = (case st of In_flight \<Rightarrow> Ready ec_operation_aborted [] | _ \<Rightarrow> st)"

end
