(* ===== verification/CxxString.thy ===== *)
theory CxxString
  imports AsyncPrelude
begin

text \<open>
  The part of the C++ standard library's \<open>std::string\<close> and
  \<open>std::filesystem::path\<close> that the sources use: \<open>find\<close>, \<open>rfind\<close> and
  \<open>substr\<close> (which throws \<open>std::out_of_range\<close>), and \<open>filename\<close>,
  \<open>parent_path\<close> and \<open>operator/\<close> with their POSIX meaning. \<open>npos\<close> is \<open>None\<close>.
\<close>

section \<open>Searching and cutting\<close>

fun str_find :: "string \<Rightarrow> string \<Rightarrow> nat option" where
  "str_find pat [] = (if pat = [] then Some 0 else None)"
| "str_find pat (c # cs) =
     (if prefix pat (c # cs) then Some 0 else map_option Suc (str_find pat cs))"

fun str_rfind :: "string \<Rightarrow> string \<Rightarrow> nat option" where
  "str_rfind pat [] = (if pat = [] then Some 0 else None)"
| "str_rfind pat (c # cs) =
     (case str_rfind pat cs of
        Some i \<Rightarrow> Some (Suc i)
      | None \<Rightarrow> if prefix pat (c # cs) then Some 0 else None)"

text \<open>\<open>s.substr(pos, n)\<close>: \<open>None\<close> is the thrown \<open>std::out_of_range\<close>.\<close>

definition substr :: "string \<Rightarrow> nat \<Rightarrow> nat \<Rightarrow> string option" where
  "substr s pos n = (if pos \<le> length s then Some (take n (drop pos s)) else None)"

lemma str_find_SomeD:
  assumes "str_find pat s = Some i"
  shows "s = take i s @ pat @ drop (i + length pat) s" and "i + length pat \<le> length s"
proof -
  have "s = take i s @ pat @ drop (i + length pat) s \<and> i + length pat \<le> length s"
    using assms
  proof (induction s arbitrary: i)
    case Nil
    then show ?case by (auto split: if_splits)
  next
    case (Cons c cs)
    show ?case
    proof (cases "prefix pat (c # cs)")
      case True
      with Cons.prems have i: "i = 0" by simp
      from True obtain zs where zs: "c # cs = pat @ zs" by (auto simp: prefix_def)
      then have "length (c # cs) = length pat + length zs" by simp
      with i zs show ?thesis by simp
    next
      case False
      with Cons.prems obtain j where "str_find pat cs = Some j" "i = Suc j" by auto
      with Cons.IH show ?thesis by auto
    qed
  qed
  then show "s = take i s @ pat @ drop (i + length pat) s" and "i + length pat \<le> length s"
    by auto
qed

lemma str_find_leftmost:
  "str_find pat s = Some i \<Longrightarrow> j < i \<Longrightarrow> \<not> prefix pat (drop j s)"
proof (induction s arbitrary: i j)
  case Nil
  then show ?case by (auto split: if_splits)
next
  case (Cons c cs)
  from Cons.prems obtain i' where "str_find pat cs = Some i'" "i = Suc i'"
    and "\<not> prefix pat (c # cs)"
    by (auto split: if_splits)
  with Cons.IH Cons.prems(2) show ?case by (cases j) auto
qed

lemma str_find_None_iff: "str_find pat s = None \<longleftrightarrow> \<not> sublist pat s"
proof (induction s)
  case Nil
  then show ?case by auto
next
  case (Cons c cs)
  then show ?case by (auto simp: sublist_Cons_right)
qed

lemma str_find_append:
  assumes "\<And>j. j < length a \<Longrightarrow> \<not> prefix pat (drop j (a @ pat @ b))"
  shows "str_find pat (a @ pat @ b) = Some (length a)"
  using assms
proof (induction a)
  case Nil
  show ?case
  proof (cases "pat @ b")
    case Nil
    then show ?thesis by simp
  next
    case (Cons c cs)
    then have "prefix pat (c # cs)" by (metis prefixI)
    with Cons show ?thesis by simp
  qed
next
  case (Cons x a)
  from Cons.prems[of 0] have "\<not> prefix pat (x # a @ pat @ b)" by simp
  moreover have "str_find pat (a @ pat @ b) = Some (length a)"
    by (rule Cons.IH) (use Cons.prems[of "Suc j" for j] in auto)
  ultimately show ?case by simp
qed

lemma str_find_append_sublist:
  assumes "\<not> sublist pat (a @ butlast pat)" and "pat \<noteq> []"
  shows "str_find pat (a @ pat @ b) = Some (length a)"
proof (rule str_find_append)
  fix j assume j: "j < length a"
  show "\<not> prefix pat (drop j (a @ pat @ b))"
  proof
    assume pre: "prefix pat (drop j (a @ pat @ b))"
    have split: "a @ pat @ b = (a @ butlast pat) @ last pat # b"
      using assms(2) by (metis append.assoc append_Cons append_Nil append_butlast_last_id)
    have "drop j (a @ pat @ b) = drop j (a @ butlast pat) @ last pat # b"
      using j by (subst split) simp
    with pre have "prefix pat (drop j (a @ butlast pat) @ last pat # b)" by simp
    moreover have "length pat \<le> length (drop j (a @ butlast pat))"
      using j assms(2) by (cases pat rule: rev_cases) auto
    ultimately have "prefix pat (drop j (a @ butlast pat))"
      by (metis prefix_length_prefix prefixI)
    then have "sublist pat (a @ butlast pat)"
      using sublist_drop prefix_imp_sublist sublist_order.order.trans by blast
    with assms(1) show False by simp
  qed
qed

lemma str_find_char_None [str_simps]: "str_find [c] s = None \<longleftrightarrow> c \<notin> set s"
  by (induction s) auto

lemma str_find_char_append [str_simps]:
  "c \<notin> set a \<Longrightarrow> str_find [c] (a @ c # b) = Some (length a)"
  by (induction a) (auto split: if_splits)

lemma str_find_head_append:
  "p \<notin> set a \<Longrightarrow> str_find (p # ps) (a @ p # ps @ b) = Some (length a)"
  by (induction a) (auto simp: prefix_def)

lemma str_find_char_split:
  assumes "str_find [c] s = Some i"
  obtains a b where "s = a @ c # b" "i = length a" "c \<notin> set a"
proof -
  from str_find_SomeD[OF assms] have s: "s = take i s @ c # drop (Suc i) s" and "i < length s"
    by auto
  moreover have "c \<notin> set (take i s)"
  proof
    assume "c \<in> set (take i s)"
    then obtain j where "j < i" "j < length s" "s ! j = c"
      by (auto simp: in_set_conv_nth)
    then have "prefix [c] (drop j s)" by (simp add: Cons_nth_drop_Suc[symmetric])
    with str_find_leftmost[OF assms \<open>j < i\<close>] show False by simp
  qed
  ultimately show thesis using that[of "take i s" "drop (Suc i) s"] by auto
qed

lemma str_rfind_char_None [str_simps]: "str_rfind [c] s = None \<longleftrightarrow> c \<notin> set s"
  by (induction s) (auto split: option.splits)

lemma str_rfind_char_append [str_simps]:
  "c \<notin> set b \<Longrightarrow> str_rfind [c] (a @ c # b) = Some (length a)"
proof (induction a)
  case Nil
  then have "str_rfind [c] b = None" by (simp add: str_rfind_char_None)
  then show ?case by simp
qed simp

lemma str_rfind_char_split:
  assumes "str_rfind [c] s = Some i"
  obtains a b where "s = a @ c # b" "i = length a" "c \<notin> set b"
proof -
  from assms have "c \<in> set s" using str_rfind_char_None[of c s] by auto
  then obtain a b where "s = a @ c # b" "c \<notin> set b" using last_notin_split by metis
  with assms have "i = length a" by (simp add: str_rfind_char_append)
  with \<open>s = a @ c # b\<close> \<open>c \<notin> set b\<close> show thesis using that by blast
qed

lemma substr_take [str_simps]: "substr s 0 n = Some (take n s)"
  by (simp add: substr_def)

lemma substr_drop [str_simps]:
  "i \<le> length s \<Longrightarrow> length s \<le> n + i \<Longrightarrow> substr s i n = Some (drop i s)"
  by (simp add: substr_def)

lemma str_find_drop_self [str_simps]: "drop (length a) (a @ b) = b"
  by simp

text \<open>Searching for one character is splitting with \<open>takeWhile\<close>.\<close>

lemma str_find_char:
  "str_find [c] s =
     (if c \<in> set s then Some (length (takeWhile (\<lambda>x. x \<noteq> c) s)) else None)"
  by (induction s) auto

lemma take_length_takeWhile [str_simps]:
  "take (length (takeWhile P s)) s = takeWhile P s"
  by (simp add: takeWhile_eq_take[symmetric])

lemma drop_length_takeWhile [str_simps]:
  "drop (length (takeWhile P s)) s = dropWhile P s"
  by (simp add: dropWhile_eq_drop)

lemma drop_Suc_length_takeWhile [str_simps]:
  "drop (Suc (length (takeWhile P s))) s = tl (dropWhile P s)"
  by (simp add: dropWhile_eq_drop drop_Suc tl_drop)

lemma length_takeWhile_less_mem:
  "c \<in> set s \<Longrightarrow> length (takeWhile (\<lambda>x. x \<noteq> c) s) < length s"
  by (induction s) auto

lemma substr_head [str_simps]: "i \<le> n \<Longrightarrow> substr s 0 i = Some (take i s)"
  by (simp add: substr_def)

lemma substr_rest [str_simps]:
  "i \<le> length s \<Longrightarrow> substr s i (length s) = Some (drop i s)"
  by (simp add: substr_def)

section \<open>std::filesystem::path\<close>

text \<open>\<open>p.filename()\<close>: what follows the last slash.\<close>

definition path_filename :: "string \<Rightarrow> string" where
  "path_filename p = rev (takeWhile (\<lambda>c. c \<noteq> CHR ''/'') (rev p))"

text \<open>
  \<open>p.parent_path()\<close>: without the file name and the slashes before it, but a path of
  slashes only keeps its root directory.
\<close>

definition path_parent :: "string \<Rightarrow> string" where
  "path_parent p =
     (let d = rev (dropWhile (\<lambda>c. c \<noteq> CHR ''/'') (rev p));
          t = rev (dropWhile (\<lambda>c. c = CHR ''/'') (rev d))
      in if t = [] \<and> d \<noteq> [] then ''/'' else t)"

definition path_is_absolute :: "string \<Rightarrow> bool" where
  "path_is_absolute p \<longleftrightarrow> (case p of [] \<Rightarrow> False | c # _ \<Rightarrow> c = CHR ''/'')"

text \<open>\<open>operator/\<close>: an absolute right operand replaces the left one.\<close>

definition path_append :: "string \<Rightarrow> string \<Rightarrow> string" where
  "path_append a b =
     (if path_is_absolute b then b
      else if path_filename a \<noteq> [] then a @ ''/'' @ b
      else a @ b)"

lemma takeWhile_rev_append:
  "\<forall>x\<in>set b. P x \<Longrightarrow> \<not> P c \<Longrightarrow> takeWhile P (rev b @ c # r) = rev b"
  by (subst takeWhile_append2) auto

lemma path_filename_slash [path_simps]:
  "CHR ''/'' \<notin> set f \<Longrightarrow> path_filename (d @ CHR ''/'' # f) = f"
  unfolding path_filename_def
  by (simp, subst takeWhile_rev_append) auto

lemma path_filename_no_slash [path_simps]:
  "CHR ''/'' \<notin> set f \<Longrightarrow> path_filename f = f"
  unfolding path_filename_def by (subst takeWhile_eq_all_conv[THEN iffD2]) auto

lemma path_filename_has_no_slash: "CHR ''/'' \<notin> set (path_filename p)"
  unfolding path_filename_def by (auto dest: set_takeWhileD)

lemma path_filename_suffix: "suffix (path_filename p) p"
  unfolding path_filename_def suffix_to_prefix by (simp add: takeWhile_is_prefix)

lemma path_parent_no_slash [path_simps]:
  "CHR ''/'' \<notin> set f \<Longrightarrow> path_parent f = []"
  unfolding path_parent_def by (subst dropWhile_eq_Nil_conv[THEN iffD2]) auto

lemma path_parent_slash [path_simps]:
  assumes "CHR ''/'' \<notin> set f" and "d \<noteq> []" and "last d \<noteq> CHR ''/''"
  shows "path_parent (d @ CHR ''/'' # f) = d"
proof -
  have 1: "dropWhile (\<lambda>c. c \<noteq> CHR ''/'') (rev (d @ CHR ''/'' # f)) = CHR ''/'' # rev d"
    using assms(1) by (simp, subst dropWhile_append2) auto
  obtain d' x where d: "d = d' @ [x]" "x \<noteq> CHR ''/''"
    using assms(2,3) by (cases d rule: rev_cases) auto
  show ?thesis unfolding path_parent_def Let_def 1 using d by simp
qed

lemma path_append_absolute [path_simps]:
  "path_is_absolute b \<Longrightarrow> path_append a b = b"
  by (simp add: path_append_def)

lemma path_append_relative [path_simps]:
  "\<not> path_is_absolute b \<Longrightarrow> path_filename a \<noteq> [] \<Longrightarrow> path_append a b = a @ ''/'' @ b"
  by (simp add: path_append_def)

end
