(* ===== verification/UrlStringUtil.thy ===== *)
theory UrlStringUtil
  imports CxxString
begin

text \<open>
  \<open>src/URLStringUtil.cpp\<close>: the four URL parsers. Their reference parameters are the
  fields of a record that a call takes and returns; a field the code leaves alone keeps
  its value. The result is \<open>None\<close> where \<open>substr\<close> throws \<open>std::out_of_range\<close>.
\<close>

section \<open>getURLComponents\<close>

record url_parts =
  up_prefix :: string
  up_base :: string
  up_extension :: string

definition getURLComponents :: "string \<Rightarrow> url_parts \<Rightarrow> (bool \<times> url_parts) option" where
  "getURLComponents url out =
     (if url = [] then Some (False, out)
      else case str_find ''://'' url of
        None \<Rightarrow> Some (False, out)
      | Some index \<Rightarrow> do {
          pre \<leftarrow> substr url 0 index;
          base \<leftarrow> substr url (index + 3) (length url);
          extension \<leftarrow> (case str_rfind ''.'' base of
              None \<Rightarrow> Some []
            | Some start_index \<Rightarrow> substr base (start_index + 1) (length base));
          Some (True, out\<lparr>up_prefix := pre, up_base := base, up_extension := extension\<rparr>)
        })"

section \<open>parseHTTPUrl\<close>

record http_parts =
  hp_host :: string
  hp_path :: string
  hp_port :: string

definition parseHTTPUrl :: "string \<Rightarrow> http_parts \<Rightarrow> (bool \<times> http_parts) option" where
  "parseHTTPUrl url out =
     (if url = [] then Some (False, out)
      else case str_find ''/'' url of
        None \<Rightarrow> Some (False, out)
      | Some index \<Rightarrow> do {
          host \<leftarrow> substr url 0 index;
          path \<leftarrow> substr url index (length url);
          let out1 = out\<lparr>hp_host := host, hp_path := path\<rparr>;
          if host = [] then Some (False, out1)
          else case str_find '':'' host of
            None \<Rightarrow> Some (True, out1\<lparr>hp_port := ''443''\<rparr>)
          | Some port_index \<Rightarrow> do {
              port \<leftarrow> substr host (port_index + 1) (length host);
              host' \<leftarrow> substr host 0 port_index;
              let out2 = out1\<lparr>hp_port := port, hp_host := host'\<rparr>;
              Some (\<not> (port = [] \<or> host' = []), out2)
            }
        })"

section \<open>parseSFTPUrl\<close>

record sftp_parts =
  sp_host :: string
  sp_path :: string
  sp_user :: string
  sp_pass :: string
  sp_publickey_file :: string
  sp_privatekey_file :: string
  sp_privatekey_pass :: string

text \<open>\<open>if (start < pass.length() && pass[start] == ':') start++\<close>\<close>

definition skip_separator :: "string \<Rightarrow> nat \<Rightarrow> nat" where
  "skip_separator pass start =
     (if start < length pass \<and> pass ! start = CHR '':'' then start + 1 else start)"

text \<open>The four stages of \<open>parseSFTPUrl\<close> under \<open>if (!user.empty())\<close>.\<close>

definition split_user_pass :: "sftp_parts \<Rightarrow> sftp_parts option" where
  "split_user_pass p =
     (case str_find '':'' (sp_user p) of
        None \<Rightarrow> Some (p\<lparr>sp_pass := []\<rparr>)
      | Some index \<Rightarrow> do {
          pass \<leftarrow> substr (sp_user p) (index + 1) (length (sp_user p));
          user \<leftarrow> substr (sp_user p) 0 index;
          Some (p\<lparr>sp_pass := pass, sp_user := user\<rparr>) })"

definition take_pubkey :: "sftp_parts \<Rightarrow> sftp_parts option" where
  "take_pubkey p =
     (case str_find ''pubkey_identifier'' (sp_pass p) of
        None \<Rightarrow> Some p
      | Some index \<Rightarrow> do {
          f \<leftarrow> substr (sp_pass p) (skip_separator (sp_pass p) (index + 17)) (length (sp_pass p));
          Some (p\<lparr>sp_publickey_file := f, sp_pass := []\<rparr>) })"

definition take_privkey :: "sftp_parts \<Rightarrow> sftp_parts option" where
  "take_privkey p =
     (case str_find ''privkey_identifier'' (sp_pass p) of
        None \<Rightarrow> Some p
      | Some index \<Rightarrow> do {
          f \<leftarrow> substr (sp_pass p) (skip_separator (sp_pass p) (index + 18)) (length (sp_pass p));
          Some (p\<lparr>sp_privatekey_file := f, sp_pass := []\<rparr>) })"

definition take_passphrase :: "sftp_parts \<Rightarrow> sftp_parts option" where
  "take_passphrase p =
     (if sp_privatekey_file p = [] then Some p
      else case str_find ''key_passphrase'' (sp_privatekey_file p) of
        None \<Rightarrow> Some p
      | Some index \<Rightarrow> do {
          kp \<leftarrow> substr (sp_privatekey_file p) (index + 14) (length (sp_privatekey_file p));
          kf \<leftarrow> substr (sp_privatekey_file p) 0 index;
          Some (p\<lparr>sp_privatekey_pass := kp, sp_privatekey_file := kf\<rparr>) })"

definition parseSFTPCredentials :: "sftp_parts \<Rightarrow> sftp_parts option" where
  "parseSFTPCredentials p =
     do { p1 \<leftarrow> split_user_pass p; p2 \<leftarrow> take_pubkey p1; p3 \<leftarrow> take_privkey p2; take_passphrase p3 }"

definition split_user_host :: "string \<Rightarrow> sftp_parts \<Rightarrow> sftp_parts option" where
  "split_user_host url out =
     (let out0 = out\<lparr>sp_user := [], sp_pass := [], sp_publickey_file := [],
                     sp_privatekey_file := [], sp_privatekey_pass := []\<rparr>
      in case str_find ''@'' url of
           None \<Rightarrow> Some (out0\<lparr>sp_user := [], sp_pass := [], sp_host := url\<rparr>)
         | Some index \<Rightarrow> do {
             user \<leftarrow> substr url 0 index;
             host \<leftarrow> substr url (index + 1) (length url);
             Some (out0\<lparr>sp_user := user, sp_host := host\<rparr>) })"

definition split_host_path :: "sftp_parts \<Rightarrow> (bool \<times> sftp_parts) option" where
  "split_host_path p =
     (case str_find ''/'' (sp_host p) of
        None \<Rightarrow> Some (False, p)
      | Some index \<Rightarrow> do {
          path \<leftarrow> substr (sp_host p) index (length (sp_host p));
          host \<leftarrow> substr (sp_host p) 0 index;
          Some (host \<noteq> [], p\<lparr>sp_path := path, sp_host := host\<rparr>) })"

definition parseSFTPUrl :: "string \<Rightarrow> sftp_parts \<Rightarrow> (bool \<times> sftp_parts) option" where
  "parseSFTPUrl url out =
     (if url = [] then Some (False, out)
      else do {
        out1 \<leftarrow> split_user_host url out;
        out2 \<leftarrow> (if sp_user out1 = [] then Some out1 else parseSFTPCredentials out1);
        split_host_path out2
      })"

section \<open>parseIPFSUrl\<close>

record ipfs_parts =
  ip_cid :: string
  ip_file :: string

definition parseIPFSUrl :: "string \<Rightarrow> ipfs_parts \<Rightarrow> (bool \<times> ipfs_parts) option" where
  "parseIPFSUrl url out =
     (if url = [] then Some (False, out)
      else case str_find ''/'' url of
        None \<Rightarrow> Some (False, out)
      | Some index \<Rightarrow> do {
          cid \<leftarrow> substr url 0 index;
          file \<leftarrow> substr url (index + 1) (length url);
          Some (cid \<noteq> [], out\<lparr>ip_cid := cid, ip_file := file\<rparr>)
        })"

section \<open>Auxiliary facts\<close>

lemma scheme_prefix_sublist:
  assumes "prefix ''://'' (q @ ''://'' @ b)" and "q \<noteq> []"
  shows "sublist ''://'' q"
proof -
  from assms(2) obtain x q1 where q: "q = x # q1" by (cases q) auto
  with assms(1) have x: "x = CHR '':''" by (auto simp: prefix_def)
  obtain y q2 where q1: "q1 = y # q2" and "y = CHR ''/''"
    using assms(1) q by (cases q1) (auto simp: prefix_def)
  moreover obtain z q3 where "q2 = z # q3" and "z = CHR ''/''"
    using assms(1) q q1 by (cases q2) (auto simp: prefix_def)
  ultimately have "q = ''://'' @ q3" using q x by simp
  then show ?thesis by simp
qed

lemma str_find_scheme [url_simps]:
  assumes "\<not> sublist ''://'' p"
  shows "str_find ''://'' (p @ ''://'' @ b) = Some (length p)"
proof (rule str_find_append)
  fix j assume j: "j < length p"
  show "\<not> prefix ''://'' (drop j (p @ ''://'' @ b))"
  proof
    assume "prefix ''://'' (drop j (p @ ''://'' @ b))"
    with j have "sublist ''://'' (drop j p)"
      by (intro scheme_prefix_sublist[where b = b]) auto
    then have "sublist ''://'' p" using sublist_drop sublist_order.order.trans by blast
    with assms show False by simp
  qed
qed

lemma str_find_in_range: "str_find pat s = Some i \<Longrightarrow> i + length pat \<le> length s"
  by (rule str_find_SomeD(2))

lemma str_rfind_char_in_range: "str_rfind [c] s = Some i \<Longrightarrow> i < length s"
  by (erule str_rfind_char_split) simp

text \<open>
  The contract the callers rely on: a parser returns (it never lets
  \<open>std::out_of_range\<close> escape), and rejects the empty string without touching its
  output parameters.
\<close>

locale out_param_parser =
  fixes parse :: "string \<Rightarrow> 'r \<Rightarrow> (bool \<times> 'r) option"
  assumes returns: "\<exists>ok r. parse url out = Some (ok, r)"
    and empty_rejected: "parse [] out = Some (False, out)"
begin

lemma never_throws: "parse url out \<noteq> None"
  using returns[of url out] by auto

lemma accepted_nonempty: "parse url out = Some (True, r) \<Longrightarrow> url \<noteq> []"
  using empty_rejected by auto

end

interpretation url_components: out_param_parser getURLComponents
proof unfold_locales
  fix url out
  show "\<exists>ok r. getURLComponents url out = Some (ok, r)"
    using str_find_in_range[of "''://''" url]
    by (auto simp: getURLComponents_def substr_def split: option.splits
        dest: str_rfind_char_in_range)
  show "getURLComponents [] out = Some (False, out)" by (simp add: getURLComponents_def)
qed

interpretation http_url: out_param_parser parseHTTPUrl
proof unfold_locales
  fix url out
  show "\<exists>ok r. parseHTTPUrl url out = Some (ok, r)"
    by (auto simp: parseHTTPUrl_def substr_def Let_def split: option.splits
        dest!: str_find_in_range)
  show "parseHTTPUrl [] out = Some (False, out)" by (simp add: parseHTTPUrl_def)
qed

interpretation ipfs_url: out_param_parser parseIPFSUrl
proof unfold_locales
  fix url out
  show "\<exists>ok r. parseIPFSUrl url out = Some (ok, r)"
    by (auto simp: parseIPFSUrl_def substr_def split: option.splits dest!: str_find_in_range)
  show "parseIPFSUrl [] out = Some (False, out)" by (simp add: parseIPFSUrl_def)
qed

lemma bind_returns:
  "\<exists>a. m = Some a \<Longrightarrow> (\<And>a. m = Some a \<Longrightarrow> \<exists>r. f a = Some r) \<Longrightarrow>
   \<exists>r. Option.bind m f = Some r"
  by auto

lemma skip_separator_le: "start \<le> length s \<Longrightarrow> skip_separator s start \<le> length s"
  by (simp add: skip_separator_def)

lemma credential_stages_return:
  "\<exists>r. split_user_pass p = Some r" "\<exists>r. take_pubkey p = Some r"
  "\<exists>r. take_privkey p = Some r" "\<exists>r. take_passphrase p = Some r"
  by (auto simp: split_user_pass_def take_pubkey_def take_privkey_def take_passphrase_def
      substr_def skip_separator_le split: option.splits dest!: str_find_in_range)

lemma parseSFTPCredentials_returns: "\<exists>r. parseSFTPCredentials p = Some r"
  unfolding parseSFTPCredentials_def
  by (intro bind_returns credential_stages_return)

interpretation sftp_url: out_param_parser parseSFTPUrl
proof unfold_locales
  fix url :: string and out
  show "\<exists>ok r. parseSFTPUrl url out = Some (ok, r)"
  proof (cases "url = []")
    case False
    have "\<exists>r. parseSFTPUrl url out = Some r"
      unfolding parseSFTPUrl_def if_not_P[OF False]
      by (intro bind_returns)
        (auto simp: Let_def substr_def split_user_host_def split_host_path_def
          parseSFTPCredentials_returns split: option.splits dest!: str_find_in_range)
    then show ?thesis by auto
  qed (auto simp: parseSFTPUrl_def)
  show "parseSFTPUrl [] out = Some (False, out)" by (simp add: parseSFTPUrl_def)
qed

section \<open>What getURLComponents computes\<close>

text \<open>The extension the registry of parsers and savers is keyed by: after the last dot.\<close>

definition extension_of :: "string \<Rightarrow> string" where
  "extension_of base =
     (if CHR ''.'' \<in> set base then rev (takeWhile (\<lambda>c. c \<noteq> CHR ''.'') (rev base)) else [])"

lemma extension_of_dot [url_simps]:
  "CHR ''.'' \<notin> set e \<Longrightarrow> extension_of (d @ CHR ''.'' # e) = e"
  unfolding extension_of_def by (simp, subst takeWhile_rev_append) auto

lemma extension_of_none [url_simps]: "CHR ''.'' \<notin> set b \<Longrightarrow> extension_of b = []"
  by (simp add: extension_of_def)

lemma extension_rfind:
  "(case str_rfind ''.'' base of None \<Rightarrow> Some []
    | Some i \<Rightarrow> substr base (i + 1) (length base)) = Some (extension_of base)"
proof (cases "str_rfind ''.'' base")
  case None
  then have "extension_of base = []"
    using str_rfind_char_None[of "CHR ''.''" base] by (simp add: extension_of_def)
  with None show ?thesis by simp
next
  case (Some i)
  then obtain a b where "base = a @ CHR ''.'' # b" "i = length a" "CHR ''.'' \<notin> set b"
    by (rule str_rfind_char_split)
  with Some show ?thesis by (simp add: substr_def extension_of_dot)
qed

lemma getURLComponents_scheme [url_simps]:
  assumes "\<not> sublist ''://'' p"
  shows "getURLComponents (p @ ''://'' @ b) out =
    Some (True, out\<lparr>up_prefix := p, up_base := b, up_extension := extension_of b\<rparr>)"
  using extension_rfind[of b] str_find_scheme[OF assms, of b]
  by (simp add: getURLComponents_def substr_def)

lemma getURLComponents_no_scheme [url_simps]:
  "\<not> sublist ''://'' url \<Longrightarrow> getURLComponents url out = Some (False, out)"
  using str_find_None_iff[of "''://''" url] by (simp add: getURLComponents_def)

lemma leftmost_scheme:
  assumes "sublist ''://'' url"
  obtains p b where "url = p @ ''://'' @ b" "\<not> sublist ''://'' p"
proof -
  from assms obtain i where i: "str_find ''://'' url = Some i"
    using str_find_None_iff[of "''://''" url] by auto
  have "\<not> sublist ''://'' (take i url)"
  proof
    assume "sublist ''://'' (take i url)"
    then obtain u v where uv: "take i url = u @ ''://'' @ v" by (auto simp: sublist_def)
    then have "length u + length ''://'' + length v \<le> i"
      by (metis append.assoc length_append length_take min.cobounded2 min.commute)
    moreover have "prefix ''://'' (drop (length u) url)"
    proof -
      have "url = u @ ''://'' @ v @ drop i url" by (metis append.assoc append_take_drop_id uv)
      then have "drop (length u) url = ''://'' @ v @ drop i url"
        by (metis append_eq_conv_conj)
      then show ?thesis by simp
    qed
    ultimately show False using str_find_leftmost[OF i, of "length u"] by simp
  qed
  with str_find_SomeD(1)[OF i] show thesis by (rule that)
qed

text \<open>
  C17: \<open>getURLComponents\<close> always returns. It accepts exactly the strings that hold
  "://"; it then cuts the URL at the leftmost "://", so that prefix and base put
  together again give the URL, and the extension is what follows the last dot of the
  base (empty without a dot). A rejected string leaves the three output parameters alone.
\<close>

theorem getURLComponents_spec:
  "getURLComponents url out = Some (ok, r) \<longleftrightarrow>
     (if ok
      then \<exists>p b. url = p @ ''://'' @ b \<and> \<not> sublist ''://'' p \<and>
             r = out\<lparr>up_prefix := p, up_base := b, up_extension := extension_of b\<rparr>
      else \<not> sublist ''://'' url \<and> r = out)"
proof (cases "sublist ''://'' url")
  case True
  then obtain p b where url: "url = p @ ''://'' @ b" and p: "\<not> sublist ''://'' p"
    by (rule leftmost_scheme)
  have unique: "p' = p \<and> b' = b" if "url = p' @ ''://'' @ b'" "\<not> sublist ''://'' p'" for p' b'
  proof -
    have eq: "p @ ''://'' @ b = p' @ ''://'' @ b'" using url that(1) by (rule subst)
    then have "length p = length p'"
      using str_find_scheme[OF p, of b] str_find_scheme[OF that(2), of b']
      by (metis option.inject)
    with eq show ?thesis by simp
  qed
  have lhs: "getURLComponents url out =
      Some (True, out\<lparr>up_prefix := p, up_base := b, up_extension := extension_of b\<rparr>)"
    unfolding url by (rule getURLComponents_scheme[OF p])
  show ?thesis
  proof (cases ok)
    case True
    have "(\<exists>p b. url = p @ ''://'' @ b \<and> \<not> sublist ''://'' p \<and>
             r = out\<lparr>up_prefix := p, up_base := b, up_extension := extension_of b\<rparr>) \<longleftrightarrow>
          r = out\<lparr>up_prefix := p, up_base := b, up_extension := extension_of b\<rparr>"
      using unique url p by blast
    with lhs True show ?thesis by (simp only: if_True option.inject prod.inject) auto
  next
    case False
    with lhs True show ?thesis by simp
  qed
next
  case False
  then have "url \<noteq> p @ ''://'' @ b" for p b using sublist_appendI by metis
  with False show ?thesis by (auto simp: getURLComponents_no_scheme)
qed

section \<open>What the other parsers compute\<close>

text \<open>Host part and path of an HTTP URL, and the default port, without index arithmetic.\<close>

definition http_url_ref :: "string \<Rightarrow> http_parts \<Rightarrow> bool \<times> http_parts" where
  "http_url_ref url out =
     (if CHR ''/'' \<notin> set url then (False, out)
      else let authority = takeWhile (\<lambda>c. c \<noteq> CHR ''/'') url;
               path = dropWhile (\<lambda>c. c \<noteq> CHR ''/'') url;
               host = takeWhile (\<lambda>c. c \<noteq> CHR '':'') authority;
               port = tl (dropWhile (\<lambda>c. c \<noteq> CHR '':'') authority)
           in if authority = [] then (False, out\<lparr>hp_host := [], hp_path := path\<rparr>)
              else if CHR '':'' \<notin> set authority
              then (True, out\<lparr>hp_host := authority, hp_path := path, hp_port := ''443''\<rparr>)
              else (port \<noteq> [] \<and> host \<noteq> [],
                    out\<lparr>hp_host := host, hp_path := path, hp_port := port\<rparr>))"

text \<open>
  C18: \<open>parseHTTPUrl\<close> returns on every input and agrees with the reference
  decomposition: the authority is what precedes the first slash, the path starts with
  that slash, the host ends at the first colon of the authority, the port is the rest of
  the authority, 443 without a colon; an empty authority, host or port is rejected.
\<close>

theorem parseHTTPUrl_ref: "parseHTTPUrl url out = Some (http_url_ref url out)"
proof (cases "CHR ''/'' \<in> set url")
  case False
  then show ?thesis by (simp add: parseHTTPUrl_def http_url_ref_def str_find_char)
next
  case True
  let ?a = "takeWhile (\<lambda>c. c \<noteq> CHR ''/'') url"
  from True have "url \<noteq> []" and len: "length ?a < length url"
    by (auto simp: length_takeWhile_less_mem)
  show ?thesis
  proof (cases "CHR '':'' \<in> set ?a")
    case colon: True
    then have "length (takeWhile (\<lambda>c. c \<noteq> CHR '':'') ?a) < length ?a"
      by (rule length_takeWhile_less_mem)
    with True \<open>url \<noteq> []\<close> len colon show ?thesis
      by (auto simp: parseHTTPUrl_def http_url_ref_def str_find_char Let_def str_simps)
  next
    case False
    with True \<open>url \<noteq> []\<close> len show ?thesis
      by (auto simp: parseHTTPUrl_def http_url_ref_def str_find_char Let_def str_simps)
  qed
qed

text \<open>The stages of the credential parser, one equation per shape of the password field.\<close>

lemma split_user_pass_colon [url_simps]:
  "CHR '':'' \<notin> set u \<Longrightarrow> sp_user p = u @ CHR '':'' # w \<Longrightarrow>
   split_user_pass p = Some (p\<lparr>sp_pass := w, sp_user := u\<rparr>)"
  by (simp add: split_user_pass_def str_find_char_append substr_def)

lemma split_user_pass_plain [url_simps]:
  "CHR '':'' \<notin> set (sp_user p) \<Longrightarrow> split_user_pass p = Some (p\<lparr>sp_pass := []\<rparr>)"
  by (simp add: split_user_pass_def str_find_char)

lemma take_pubkey_none [url_simps]:
  "\<not> sublist ''pubkey_identifier'' (sp_pass p) \<Longrightarrow> take_pubkey p = Some p"
  using str_find_None_iff[of "''pubkey_identifier''" "sp_pass p"]
  by (simp add: take_pubkey_def)

lemma take_privkey_none [url_simps]:
  "\<not> sublist ''privkey_identifier'' (sp_pass p) \<Longrightarrow> take_privkey p = Some p"
  using str_find_None_iff[of "''privkey_identifier''" "sp_pass p"]
  by (simp add: take_privkey_def)

lemma take_passphrase_none [url_simps]:
  "sp_privatekey_file p = [] \<Longrightarrow> take_passphrase p = Some p"
  by (simp add: take_passphrase_def)

lemma take_privkey_head [url_simps]:
  "sp_pass p = ''privkey_identifier:'' @ f \<Longrightarrow>
   take_privkey p = Some (p\<lparr>sp_privatekey_file := f, sp_pass := []\<rparr>)"
  by (simp add: take_privkey_def skip_separator_def substr_def)

lemma take_passphrase_found [url_simps]:
  assumes "sp_privatekey_file p = f @ ''key_passphrase'' @ w" and "CHR ''k'' \<notin> set f"
  shows "take_passphrase p = Some (p\<lparr>sp_privatekey_pass := w, sp_privatekey_file := f\<rparr>)"
  using assms str_find_head_append[of "CHR ''k''" f "''ey_passphrase''" w]
  by (simp add: take_passphrase_def substr_def)

lemma parseSFTPUrl_user:
  assumes "CHR ''@'' \<notin> set u" and "u \<noteq> []"
    and "parseSFTPCredentials \<lparr>sp_host = host @ CHR ''/'' # path, sp_path = sp_path out,
           sp_user = u, sp_pass = [], sp_publickey_file = [], sp_privatekey_file = [],
           sp_privatekey_pass = []\<rparr> = Some q"
    and "sp_host q = host @ CHR ''/'' # path" and "CHR ''/'' \<notin> set host"
  shows "parseSFTPUrl (u @ CHR ''@'' # host @ CHR ''/'' # path) out =
    Some (host \<noteq> [], q\<lparr>sp_path := CHR ''/'' # path, sp_host := host\<rparr>)"
  using assms
  by (cases out) (simp add: parseSFTPUrl_def split_user_host_def split_host_path_def Let_def
      str_find_char_append substr_def)

text \<open>
  C19: a URL \<open>user:pass@host/path\<close> parses into exactly these parts, with no key file,
  whatever the path holds, provided the parts do not contain the separators before them
  and the password names no key identifier.
\<close>

theorem parseSFTPUrl_password:
  assumes "CHR ''@'' \<notin> set user" "CHR '':'' \<notin> set user"
    and "CHR ''@'' \<notin> set pass" "\<not> sublist ''pubkey_identifier'' pass"
    and "\<not> sublist ''privkey_identifier'' pass"
    and "host \<noteq> []" "CHR ''/'' \<notin> set host"
  shows "parseSFTPUrl (user @ '':'' @ pass @ ''@'' @ host @ ''/'' @ path) out =
    Some (True, \<lparr>sp_host = host, sp_path = ''/'' @ path, sp_user = user, sp_pass = pass,
      sp_publickey_file = [], sp_privatekey_file = [], sp_privatekey_pass = []\<rparr>)"
proof -
  let ?u = "user @ CHR '':'' # pass"
  have "parseSFTPCredentials \<lparr>sp_host = host @ CHR ''/'' # path, sp_path = sp_path out,
      sp_user = ?u, sp_pass = [], sp_publickey_file = [], sp_privatekey_file = [],
      sp_privatekey_pass = []\<rparr> =
    Some \<lparr>sp_host = host @ CHR ''/'' # path, sp_path = sp_path out,
      sp_user = user, sp_pass = pass, sp_publickey_file = [], sp_privatekey_file = [],
      sp_privatekey_pass = []\<rparr>"
    using assms(2,4,5) by (simp add: parseSFTPCredentials_def url_simps)
  from parseSFTPUrl_user[OF _ _ this] assms(1,3,6,7) show ?thesis by simp
qed

lemma parseSFTPUrl_privkey_parts:
  assumes "CHR ''@'' \<notin> set user" "CHR '':'' \<notin> set user"
    and "CHR ''@'' \<notin> set kfile" "CHR ''k'' \<notin> set kfile" "kfile \<noteq> []"
    and "CHR ''@'' \<notin> set phrase"
    and "\<not> sublist ''pubkey_identifier''
           (''privkey_identifier:'' @ kfile @ ''key_passphrase'' @ phrase)"
    and "host \<noteq> []" "CHR ''/'' \<notin> set host"
  shows "parseSFTPUrl (user @ '':privkey_identifier:'' @ kfile @ ''key_passphrase'' @ phrase
            @ ''@'' @ host @ ''/'' @ path) out =
    Some (True, \<lparr>sp_host = host, sp_path = ''/'' @ path, sp_user = user, sp_pass = [],
      sp_publickey_file = [], sp_privatekey_file = kfile, sp_privatekey_pass = phrase\<rparr>)"
proof -
  let ?w = "''privkey_identifier:'' @ kfile @ ''key_passphrase'' @ phrase"
  let ?u = "user @ CHR '':'' # ?w"
  let ?r = "\<lambda>u w f k. \<lparr>sp_host = host @ CHR ''/'' # path, sp_path = sp_path out, sp_user = u,
     sp_pass = w, sp_publickey_file = [], sp_privatekey_file = f, sp_privatekey_pass = k\<rparr>"
  have "split_user_pass (?r ?u [] [] []) = Some (?r user ?w [] [])"
    using assms(2) by (subst split_user_pass_colon[of user _ ?w]) simp_all
  moreover have "take_pubkey (?r user ?w [] []) = Some (?r user ?w [] [])"
    using assms(7) by (intro take_pubkey_none) simp
  moreover have "take_privkey (?r user ?w [] []) =
      Some (?r user [] (kfile @ ''key_passphrase'' @ phrase) [])"
    by (subst take_privkey_head) simp_all
  moreover have "take_passphrase (?r user [] (kfile @ ''key_passphrase'' @ phrase) []) =
      Some (?r user [] kfile phrase)"
    using assms(4) by (subst take_passphrase_found[where f = kfile and w = phrase]) simp_all
  ultimately have "parseSFTPCredentials (?r ?u [] [] []) = Some (?r user [] kfile phrase)"
    unfolding parseSFTPCredentials_def by (simp only: Option.bind.simps)
  from parseSFTPUrl_user[OF _ _ this] assms(1,3,6,8,9) show ?thesis by simp
qed


text \<open>What each stage keeps of "at most one kind of credential".\<close>

definition one_credential :: "sftp_parts \<Rightarrow> bool" where
  "one_credential p \<longleftrightarrow>
     (sp_publickey_file p = [] \<or> sp_privatekey_file p = []) \<and>
     (sp_publickey_file p \<noteq> [] \<or> sp_privatekey_file p \<noteq> [] \<longrightarrow> sp_pass p = []) \<and>
     (sp_privatekey_pass p \<noteq> [] \<longrightarrow> sp_publickey_file p = [] \<and> sp_pass p = [])"

lemma credential_stageD:
  "split_user_pass p = Some q \<Longrightarrow> \<exists>u w. q = p\<lparr>sp_pass := w, sp_user := u\<rparr>"
  "take_pubkey p = Some q \<Longrightarrow> q = p \<or> (\<exists>f. q = p\<lparr>sp_publickey_file := f, sp_pass := []\<rparr>)"
  "take_privkey p = Some q \<Longrightarrow>
     q = p \<or> sp_pass p \<noteq> [] \<and> (\<exists>f. q = p\<lparr>sp_privatekey_file := f, sp_pass := []\<rparr>)"
  "take_passphrase p = Some q \<Longrightarrow>
     q = p \<or> sp_privatekey_file p \<noteq> [] \<and> (\<exists>k f. q = p\<lparr>sp_privatekey_pass := k, sp_privatekey_file := f\<rparr>)"
proof -
  show "split_user_pass p = Some q \<Longrightarrow> \<exists>u w. q = p\<lparr>sp_pass := w, sp_user := u\<rparr>"
    by (cases p) (auto simp: split_user_pass_def bind_eq_Some_conv split: option.splits)
  show "take_pubkey p = Some q \<Longrightarrow> q = p \<or> (\<exists>f. q = p\<lparr>sp_publickey_file := f, sp_pass := []\<rparr>)"
    by (auto simp: take_pubkey_def bind_eq_Some_conv split: option.splits)
  show "take_privkey p = Some q \<Longrightarrow>
     q = p \<or> sp_pass p \<noteq> [] \<and> (\<exists>f. q = p\<lparr>sp_privatekey_file := f, sp_pass := []\<rparr>)"
    using take_privkey_none[of p]
    by (cases "sp_pass p = []")
      (auto simp: take_privkey_def bind_eq_Some_conv split: option.splits)
  show "take_passphrase p = Some q \<Longrightarrow>
     q = p \<or> sp_privatekey_file p \<noteq> [] \<and> (\<exists>k f. q = p\<lparr>sp_privatekey_pass := k, sp_privatekey_file := f\<rparr>)"
    by (auto simp: take_passphrase_def bind_eq_Some_conv split: option.splits if_splits)
qed

lemma parseSFTPCredentials_one:
  assumes "parseSFTPCredentials p = Some q"
    and "sp_publickey_file p = []" "sp_privatekey_file p = []" "sp_privatekey_pass p = []"
  shows "one_credential q"
proof -
  from assms(1) obtain p1 p2 p3 where st: "split_user_pass p = Some p1" "take_pubkey p1 = Some p2"
      "take_privkey p2 = Some p3" "take_passphrase p3 = Some q"
    unfolding parseSFTPCredentials_def by (auto simp: bind_eq_Some_conv)
  have "sp_publickey_file p1 = []" "sp_privatekey_file p1 = []" "sp_privatekey_pass p1 = []"
    using credential_stageD(1)[OF st(1)] assms(2-4) by auto
  then have "sp_privatekey_file p2 = []" "sp_privatekey_pass p2 = []"
      "sp_publickey_file p2 \<noteq> [] \<longrightarrow> sp_pass p2 = []"
    using credential_stageD(2)[OF st(2)] by auto
  then have "one_credential p3" "sp_privatekey_pass p3 = []"
    using credential_stageD(3)[OF st(3)] by (auto simp: one_credential_def)
  then show ?thesis
    using credential_stageD(4)[OF st(4)] by (auto simp: one_credential_def)
qed

text \<open>
  Whatever the URL, the parser never hands out two kinds of credential: a public-key
  file excludes a private-key file, either one comes with an empty password, and a
  passphrase only ever belongs to a private key.
\<close>

theorem parseSFTPUrl_one_credential:
  assumes "parseSFTPUrl url out = Some (ok, r)" and "url \<noteq> []"
  shows "one_credential r"
proof -
  from assms obtain q1 q2 where q1: "split_user_host url out = Some q1"
    and q2: "(if sp_user q1 = [] then Some q1 else parseSFTPCredentials q1) = Some q2"
    and fin: "split_host_path q2 = Some (ok, r)"
    unfolding parseSFTPUrl_def if_not_P[OF assms(2)] bind_eq_Some_conv by blast
  have empty: "sp_publickey_file q1 = []" "sp_privatekey_file q1 = []"
      "sp_privatekey_pass q1 = []" "sp_pass q1 = []"
    using q1 by (auto simp: split_user_host_def Let_def bind_eq_Some_conv split: option.splits)
  have "one_credential q2"
  proof (cases "sp_user q1 = []")
    case True
    with q2 empty show ?thesis by (simp add: one_credential_def)
  next
    case False
    with q2 have "parseSFTPCredentials q1 = Some q2" by simp
    from parseSFTPCredentials_one[OF this empty(1-3)] show ?thesis .
  qed
  with fin show ?thesis
    by (auto simp: split_host_path_def one_credential_def bind_eq_Some_conv split: option.splits)
qed

text \<open>
  The parser looks for the user at the first "@" of the whole URL, so an "@" in the
  path of a URL without a user makes it take host and path for the user name, and reject
  the URL when no slash follows that "@".
\<close>

theorem parseSFTPUrl_at_in_path:
  assumes "CHR ''@'' \<notin> set host" "CHR ''@'' \<notin> set dir" "CHR ''/'' \<notin> set rest"
  shows "\<exists>r. parseSFTPUrl (host @ ''/'' @ dir @ ''@'' @ rest) out = Some (False, r)"
proof -
  let ?u = "host @ CHR ''/'' # dir"
  let ?q = "out\<lparr>sp_pass := [], sp_publickey_file := [], sp_privatekey_file := [],
     sp_privatekey_pass := [], sp_user := ?u, sp_host := rest\<rparr>"
  have 1: "split_user_host (?u @ CHR ''@'' # rest) out = Some ?q"
    using assms str_find_char_append[of "CHR ''@''" ?u rest]
    by (simp add: split_user_host_def substr_def Let_def)
  obtain q where q: "parseSFTPCredentials ?q = Some q"
    using parseSFTPCredentials_returns by blast
  have "sp_host q = rest"
    using q by (auto simp: parseSFTPCredentials_def bind_eq_Some_conv dest!: credential_stageD)
  then have "split_host_path q = Some (False, q)"
    using assms(3) by (simp add: split_host_path_def str_find_char)
  with 1 q show ?thesis by (simp add: parseSFTPUrl_def)
qed

text \<open>
  \<open>parseIPFSUrl\<close> accepts exactly the strings with a non-empty part before their
  first slash, and returns that part as the CID and everything after the slash as the
  file name.
\<close>

theorem parseIPFSUrl_accepts:
  "parseIPFSUrl url out = Some (True, r) \<longleftrightarrow>
     (\<exists>cid f. url = cid @ ''/'' @ f \<and> cid \<noteq> [] \<and> CHR ''/'' \<notin> set cid \<and>
        r = out\<lparr>ip_cid := cid, ip_file := f\<rparr>)"
proof
  assume l: "parseIPFSUrl url out = Some (True, r)"
  then obtain i where i: "str_find ''/'' url = Some i"
    by (auto simp: parseIPFSUrl_def split: if_splits option.splits)
  then obtain a b where "url = a @ CHR ''/'' # b" "i = length a" "CHR ''/'' \<notin> set a"
    by (rule str_find_char_split)
  with l i show "\<exists>cid f. url = cid @ ''/'' @ f \<and> cid \<noteq> [] \<and> CHR ''/'' \<notin> set cid \<and>
        r = out\<lparr>ip_cid := cid, ip_file := f\<rparr>"
    by (auto simp: parseIPFSUrl_def substr_def)
next
  assume "\<exists>cid f. url = cid @ ''/'' @ f \<and> cid \<noteq> [] \<and> CHR ''/'' \<notin> set cid \<and>
        r = out\<lparr>ip_cid := cid, ip_file := f\<rparr>"
  then show "parseIPFSUrl url out = Some (True, r)"
    by (auto simp: parseIPFSUrl_def str_find_char_append substr_def)
qed

section \<open>Witnesses\<close>

lemma getURLComponents_spec_witness:
  "getURLComponents ''https://h/f.bin'' \<lparr>up_prefix = [], up_base = [], up_extension = []\<rparr> =
     Some (True, \<lparr>up_prefix = ''https'', up_base = ''h/f.bin'', up_extension = ''bin''\<rparr>)"
  by (subst getURLComponents_spec, simp only: if_True,
      rule exI[of _ "''https''"], rule exI[of _ "''h/f.bin''"]) code_simp

lemma parseSFTPUrl_password_witness:
  "parseSFTPUrl (''joe'' @ '':'' @ ''pw'' @ ''@'' @ ''h'' @ ''/'' @ ''d/f'')
      \<lparr>sp_host = [], sp_path = [], sp_user = [], sp_pass = [], sp_publickey_file = [],
       sp_privatekey_file = [], sp_privatekey_pass = []\<rparr> =
    Some (True, \<lparr>sp_host = ''h'', sp_path = ''/'' @ ''d/f'', sp_user = ''joe'', sp_pass = ''pw'',
      sp_publickey_file = [], sp_privatekey_file = [], sp_privatekey_pass = []\<rparr>)"
  by (rule parseSFTPUrl_password) code_simp+


lemma parseSFTPUrl_one_credential_witness:
  "one_credential \<lparr>sp_host = ''h'', sp_path = ''/f'', sp_user = ''u'', sp_pass = [],
      sp_publickey_file = ''k.pub'', sp_privatekey_file = [], sp_privatekey_pass = []\<rparr>"
  by (rule parseSFTPUrl_one_credential[of "''u:pubkey_identifier:k.pub@h/f''"
        "\<lparr>sp_host = [], sp_path = [], sp_user = [], sp_pass = [], sp_publickey_file = [],
          sp_privatekey_file = [], sp_privatekey_pass = []\<rparr>" True]) code_simp+

lemma parseSFTPUrl_at_in_path_witness:
  "\<exists>r. parseSFTPUrl (''h'' @ ''/'' @ ''a'' @ ''@'' @ ''b.txt'')
      \<lparr>sp_host = [], sp_path = [], sp_user = [], sp_pass = [], sp_publickey_file = [],
       sp_privatekey_file = [], sp_privatekey_pass = []\<rparr> = Some (False, r)"
  by (rule parseSFTPUrl_at_in_path) code_simp+

end
