(* ===== verification/HttpDevice.thy ===== *)
theory HttpDevice
  imports AsioContext UrlStringUtil
begin

text \<open>
  \<open>src/HTTPCommon.cpp\<close> and \<open>src/HTTPLoader.cpp\<close>: the HTTPS download. The pending
  operation of \<open>HTTPDevice\<close> is one of the four \<open>async_\<close> calls, each guarded by a
  deadline timer whose handler cancels the whole socket. Name resolution, the TLS library
  and the peer are parameters or events. Logging is left out.
\<close>

section \<open>Errors\<close>

datatype http_error =
    COULD_NOT_RESOLVE | HANDSHAKE_ERROR | CONNECT_ERROR | CON_INTERRUPT
  | NO_HEADER | REQ_FAILED | TIMEOUT

fun http_error_message :: "http_error \<Rightarrow> string" where
  "http_error_message COULD_NOT_RESOLVE = ''HTTP Could not resolve address''"
| "http_error_message HANDSHAKE_ERROR = ''HTTP Handshake Error''"
| "http_error_message CONNECT_ERROR = ''HTTP Connect Error''"
| "http_error_message CON_INTERRUPT = ''HTTP Read Error. Connection interrupted.''"
| "http_error_message NO_HEADER = ''HTTP Data Read failed. No header.''"
| "http_error_message REQ_FAILED = ''HTTP Data Read failed. Get Request Fail.''"
| "http_error_message TIMEOUT = ''HTTP operation timed out''"

datatype http_loader_error = INVALID_URL

fun http_loader_error_message :: "http_loader_error \<Rightarrow> string" where
  "http_loader_error_message INVALID_URL = ''Invalid URL''"

text \<open>The two enumerations a load can fail with, as error codes of their categories.\<close>

datatype http_failure = Http_failed http_error | Http_url_failed http_loader_error

section \<open>Deadlines\<close>

record deadline =
  dl_timer :: timer_state
  dl_expired :: bool

definition CancelDeadline :: "deadline \<Rightarrow> deadline" where
  "CancelDeadline d =
     (if dl_timer d = Timer_waiting then d\<lparr>dl_timer := Timer_cancelled\<rparr> else d)"

section \<open>The device\<close>

record http_device =
  http_host :: string
  http_path :: string
  http_port :: string
  http_parse :: bool
  http_save :: bool

definition HTTPDevice :: "string \<Rightarrow> string \<Rightarrow> string \<Rightarrow> bool \<Rightarrow> bool \<Rightarrow> http_device" where
  "HTTPDevice host path port parse save =
     \<lparr>http_host = host, http_path = path, http_port = port,
      http_parse = parse, http_save = save\<rparr>"

text \<open>The pending operation; its argument is the deadline its lambda has captured.\<close>

datatype http_op =
    Connecting nat
  | Handshaking nat
  | Writing nat
  | Reading nat

text \<open>
  A download in progress: the device, every deadline armed so far, and the pending
  operation (none once the download has ended).
\<close>

record http_run =
  hr_device :: http_device
  hr_deadlines :: "deadline list"
  hr_op :: "(http_op \<times> io_status) option"

datatype http_io = Send bytes

type_synonym http_act = "(http_failure, http_io) act"

definition ArmDeadline :: "http_run \<Rightarrow> nat \<times> http_run" where
  "ArmDeadline s =
     (length (hr_deadlines s),
      s\<lparr>hr_deadlines := hr_deadlines s @ [\<lparr>dl_timer = Timer_waiting, dl_expired = False\<rparr>]\<rparr>)"

text \<open>The lambda \<open>ArmDeadline\<close> hands to the timer.\<close>

definition deadline_handler :: "nat \<Rightarrow> bool \<Rightarrow> http_run \<Rightarrow> http_run" where
  "deadline_handler i failed s =
     (if \<not> failed
      then s\<lparr>hr_deadlines := (hr_deadlines s)[i := \<lparr>dl_timer = Timer_done, dl_expired = True\<rparr>],
             hr_op := map_option (\<lambda>(opn, st). (opn, cancel_io st)) (hr_op s)\<rparr>
      else s\<lparr>hr_deadlines := (hr_deadlines s)[i := (hr_deadlines s ! i)\<lparr>dl_timer := Timer_done\<rparr>]\<rparr>)"

definition cancel_deadline_at :: "nat \<Rightarrow> http_run \<Rightarrow> http_run" where
  "cancel_deadline_at i s =
     s\<lparr>hr_deadlines := (hr_deadlines s)[i := CancelDeadline (hr_deadlines s ! i)]\<rparr>"

definition expired_at :: "nat \<Rightarrow> http_run \<Rightarrow> bool" where
  "expired_at i s = dl_expired (hr_deadlines s ! i)"

definition finish :: "http_run \<Rightarrow> http_run" where
  "finish s = s\<lparr>hr_op := None\<rparr>"

definition begin_op :: "http_op \<Rightarrow> http_run \<Rightarrow> http_run" where
  "begin_op opn s = s\<lparr>hr_op := Some (opn, In_flight)\<rparr>"

section \<open>StartHTTPGet\<close>

definition crlf :: string where "crlf = [CHR 0x0D, CHR 0x0A]"

definition header_end :: string where "header_end = crlf @ crlf"

definition get_request :: "http_device \<Rightarrow> bytes" where
  "get_request d =
     ''GET '' @ http_path d @ '' HTTP/1.1'' @ crlf @ ''Host: '' @ http_host d @ crlf @
     ''User-Agent: GeniusAI/1.0 (SGNS AsyncIO Manager)'' @ crlf @
     ''Connection: close'' @ crlf @ crlf"

definition StartHTTPGet :: "http_run \<Rightarrow> http_run \<times> http_act list" where
  "StartHTTPGet s =
     (let (read_deadline, s1) = ArmDeadline s
      in (begin_op (Writing read_deadline) s1, [Io (Send (get_request (hr_device s)))]))"

text \<open>What the read handler makes of the bytes it received.\<close>

definition http_response :: "http_device \<Rightarrow> bytes \<Rightarrow> http_act" where
  "http_response d buffer =
     (case str_find header_end buffer of
        Some headerEnd \<Rightarrow>
          Handle_read (Inr (Some ([path_filename (http_path d)], [drop (headerEnd + 4) buffer])))
            (http_parse d) (http_save d)
      | None \<Rightarrow> Handle_read (Inl (Http_failed NO_HEADER)) False False)"

definition on_read :: "nat \<Rightarrow> error_code \<Rightarrow> bytes \<Rightarrow> http_run \<Rightarrow> http_run \<times> http_act list" where
  "on_read read_deadline read_error buffer s0 =
     (let s = cancel_deadline_at read_deadline s0
      in if ec_failed read_error \<and> read_error \<noteq> ec_eof
         then (finish s,
               [Handle_read (Inl (Http_failed (if expired_at read_deadline s then TIMEOUT else CON_INTERRUPT)))
                  False False])
         else (finish s, [http_response (hr_device s) buffer]))"

definition on_write :: "nat \<Rightarrow> error_code \<Rightarrow> http_run \<Rightarrow> http_run \<times> http_act list" where
  "on_write read_deadline write_error s =
     (if \<not> ec_failed write_error
      then (begin_op (Reading read_deadline) s, [])
      else let s1 = cancel_deadline_at read_deadline s
           in (finish s1,
               [Handle_read (Inl (Http_failed (if expired_at read_deadline s1 then TIMEOUT else REQ_FAILED)))
                  False False]))"

section \<open>StartHTTPDownload\<close>

definition on_handshake :: "nat \<Rightarrow> error_code \<Rightarrow> http_run \<Rightarrow> http_run \<times> http_act list" where
  "on_handshake handshake_deadline handshake_error s0 =
     (let s = cancel_deadline_at handshake_deadline s0
      in if \<not> ec_failed handshake_error
         then StartHTTPGet s
         else (finish s,
               [Handle_read (Inl (Http_failed (if expired_at handshake_deadline s then TIMEOUT
                                  else HANDSHAKE_ERROR))) False False]))"

definition on_connect :: "nat \<Rightarrow> error_code \<Rightarrow> http_run \<Rightarrow> http_run \<times> http_act list" where
  "on_connect connect_deadline connect_error s0 =
     (let s = cancel_deadline_at connect_deadline s0
      in if \<not> ec_failed connect_error
         then let (handshake_deadline, s1) = ArmDeadline s
              in (begin_op (Handshaking handshake_deadline) s1, [])
         else (finish s,
               [Handle_read (Inl (Http_failed (if expired_at connect_deadline s then TIMEOUT
                                  else CONNECT_ERROR))) False False]))"

text \<open>
  Whether the TLS context of a download checks the certificate of the server.
  \<open>dflt\<close> is the mode a new \<open>ssl::context\<close> has, \<open>s_verify_peer\<close> the static switch: it can
  turn the check off, but nothing turns it on where the default is not to check.
\<close>

datatype verify_mode = Verify_none | Verify_peer

definition http_verify_mode :: "verify_mode \<Rightarrow> bool \<Rightarrow> verify_mode" where
  "http_verify_mode dflt s_verify_peer = (if \<not> s_verify_peer then Verify_none else dflt)"

lemma http_verify_mode_default: "http_verify_mode Verify_none s_verify_peer = Verify_none"
  by (simp add: http_verify_mode_def)

text \<open>
  \<open>resolve\<close> is the name resolver (\<open>Inl\<close> for what it throws), \<open>sni\<close> the result of
  \<open>SSL_set_tlsext_host_name\<close>: the reason OpenSSL gives for a failure. All three catch clauses do the same.
\<close>

definition StartHTTPDownload ::
  "(string \<Rightarrow> string \<Rightarrow> exn + 'ep) \<Rightarrow> (string \<Rightarrow> string option) \<Rightarrow> http_device \<Rightarrow>
   exn + (http_run \<times> http_act list)" where
  "StartHTTPDownload resolve sni d =
     (let s = \<lparr>hr_device = d, hr_deadlines = [], hr_op = None\<rparr>
      in case resolve (http_host d) (http_port d) of
           Inl _ \<Rightarrow> Inr (s, [Post_read (Inl (Http_failed COULD_NOT_RESOLVE)) False False])
         | Inr endpoints \<Rightarrow>
             (case sni (http_host d) of
                Some reason \<Rightarrow> Inl (Runtime_error (''Failed to set SNI: '' @ reason))
              | None \<Rightarrow>
                  let (connect_deadline, s1) = ArmDeadline s
                  in Inr (begin_op (Connecting connect_deadline) s1, [])))"

section \<open>The run of a download\<close>

text \<open>
  The events of the io_context thread: a timer reaches its expiry, a timer handler runs,
  the kernel finishes the pending operation (with the bytes a read collected), the
  handler of the finished operation runs. An event that is not enabled does nothing.
\<close>

datatype http_event =
    Timer_expires nat
  | Timer_handler nat
  | Op_completes error_code bytes
  | Op_handler

definition op_handler :: "http_op \<Rightarrow> error_code \<Rightarrow> bytes \<Rightarrow> http_run \<Rightarrow> http_run \<times> http_act list" where
  "op_handler opn ec data s =
     (case opn of
        Connecting i \<Rightarrow> on_connect i ec s
      | Handshaking i \<Rightarrow> on_handshake i ec s
      | Writing i \<Rightarrow> on_write i ec s
      | Reading i \<Rightarrow> on_read i ec data s)"

fun http_step :: "http_run \<Rightarrow> http_event \<Rightarrow> http_run \<times> http_act list" where
  "http_step s (Timer_expires i) =
     (if i < length (hr_deadlines s) \<and> dl_timer (hr_deadlines s ! i) = Timer_waiting
      then (s\<lparr>hr_deadlines := (hr_deadlines s)[i := (hr_deadlines s ! i)\<lparr>dl_timer := Timer_due\<rparr>]\<rparr>, [])
      else (s, []))"
| "http_step s (Timer_handler i) =
     (if i < length (hr_deadlines s) then
        case dl_timer (hr_deadlines s ! i) of
          Timer_due \<Rightarrow> (deadline_handler i False s, [])
        | Timer_cancelled \<Rightarrow> (deadline_handler i True s, [])
        | _ \<Rightarrow> (s, [])
      else (s, []))"
| "http_step s (Op_completes ec data) =
     (case hr_op s of
        Some (opn, In_flight) \<Rightarrow> (s\<lparr>hr_op := Some (opn, Ready ec data)\<rparr>, [])
      | _ \<Rightarrow> (s, []))"
| "http_step s Op_handler =
     (case hr_op s of
        Some (opn, Ready ec data) \<Rightarrow> op_handler opn ec data s
      | _ \<Rightarrow> (s, []))"

section \<open>HTTPLoader\<close>

definition HTTPLoader_LoadFile :: "string \<Rightarrow> string" where
  "HTTPLoader_LoadFile filename = ''Inside the HTTPLoader::LoadFile Function''"

text \<open>
  \<open>LoadASync\<close> returns the string "test"; what it starts is a run and its first actions.
\<close>

definition HTTPLoader_LoadASync ::
  "(string \<Rightarrow> string \<Rightarrow> exn + 'ep) \<Rightarrow> (string \<Rightarrow> string option) \<Rightarrow> string \<Rightarrow> bool \<Rightarrow> bool \<Rightarrow>
   exn + (string \<times> http_run \<times> http_act list)" where
  "HTTPLoader_LoadASync resolve sni filename parse save =
     (case parseHTTPUrl filename \<lparr>hp_host = [], hp_path = [], hp_port = []\<rparr> of
        None \<Rightarrow> Inl Out_of_range
      | Some (ok, p) \<Rightarrow>
          let d = HTTPDevice (hp_host p) (hp_path p) (hp_port p) parse save
          in if \<not> ok
             then Inr (''test'', \<lparr>hr_device = d, hr_deadlines = [], hr_op = None\<rparr>,
                       [Post_read (Inl (Http_url_failed INVALID_URL)) False False])
             else case StartHTTPDownload resolve sni d of
                    Inl e \<Rightarrow> Inl e
                  | Inr (s, as) \<Rightarrow> Inr (''test'', s, as))"

section \<open>Exactly one completion\<close>

lemma completion_http_response [simp]: "completion (http_response d b)"
  by (simp add: http_response_def split: option.splits)

lemma hr_op_updates [step_simps]:
  "hr_op (cancel_deadline_at i s) = hr_op s" "hr_op (finish s) = None"
  "hr_op (begin_op opn s) = Some (opn, In_flight)"
  "hr_op (snd (ArmDeadline s)) = hr_op s"
  by (simp_all add: cancel_deadline_at_def finish_def begin_op_def ArmDeadline_def)

lemmas http_handler_defs =
  on_connect_def on_handshake_def on_write_def on_read_def StartHTTPGet_def Let_def

abbreviation http_live :: "http_run \<Rightarrow> bool" where
  "http_live s \<equiv> hr_op s \<noteq> None"

lemma op_handler_completes:
  "op_handler opn ec data s = (s', as) \<Longrightarrow>
   completions as = (if http_live s' then 0 else 1)"
  by (auto simp: op_handler_def http_handler_defs step_simps
      split: http_op.splits if_splits prod.splits)

interpretation http: one_shot http_step "\<lambda>_. True" http_live
proof unfold_locales
  fix s e s' and as :: "http_act list"
  show True by simp
  show "http_live s \<Longrightarrow> http_step s e = (s', as) \<Longrightarrow>
      completions as = (if http_live s' then 0 else 1)"
    by (cases e) (auto simp: deadline_handler_def op_handler_completes
        split: if_splits option.splits prod.splits timer_state.splits io_status.splits)
  show "\<not> http_live s \<Longrightarrow> http_step s e = (s', as) \<Longrightarrow> \<not> http_live s' \<and> completions as = 0"
    by (cases e) (auto simp: deadline_handler_def
        split: if_splits option.splits prod.splits timer_state.splits io_status.splits)
qed

lemma LoadASync_starts:
  assumes "HTTPLoader_LoadASync resolve sni filename parse save = Inr (msg, s, as)"
  shows "completions as = (if http_live s then 0 else 1)"
  using assms
  by (auto simp: HTTPLoader_LoadASync_def StartHTTPDownload_def Let_def ArmDeadline_def begin_op_def
      split: option.splits if_splits sum.splits)

text \<open>
  C1: whatever the URL, the resolver, the network and the timers do, and in whatever order
  the handlers run, a download that \<open>HTTPLoader::LoadASync\<close> has started calls its
  completion callback exactly once when it has ended and not at all before.
\<close>

theorem http_completes_exactly_once:
  assumes "HTTPLoader_LoadASync resolve sni filename parse save = Inr (msg, s, as0)"
    and "dev_run http_step s es = (s', as)"
  shows "completions (as0 @ as) = (if hr_op s' = None then 1 else 0)"
  using http.started_once[OF TrueI LoadASync_starts[OF assms(1)] assms(2)] by simp

section \<open>The delivered file\<close>

lemma http_response_body:
  assumes "\<not> sublist header_end (hdr @ [CHR 0x0D, CHR 0x0A, CHR 0x0D])"
  shows "http_response d (hdr @ header_end @ body) =
    Handle_read (Inr (Some ([path_filename (http_path d)], [body]))) (http_parse d) (http_save d)"
proof -
  have "str_find header_end (hdr @ header_end @ body) = Some (length hdr)"
    using assms by (intro str_find_append_sublist) (simp_all add: header_end_def crlf_def)
  then show ?thesis by (simp add: http_response_def header_end_def crlf_def)
qed

text \<open>The eight events of a download in which nothing fails.\<close>

definition smooth_events :: "bytes \<Rightarrow> http_event list" where
  "smooth_events response =
     [Op_completes ec_success [], Op_handler, Op_completes ec_success [], Op_handler,
      Op_completes ec_success [], Op_handler, Op_completes ec_eof response, Op_handler]"

lemma smooth_run:
  "dev_run http_step (begin_op (Connecting 0)
       (snd (ArmDeadline \<lparr>hr_device = d, hr_deadlines = [], hr_op = None\<rparr>))) (smooth_events r) =
   (s', as) \<Longrightarrow> hr_op s' = None \<and> as = [Io (Send (get_request d)), http_response d r]"
  by (auto simp: smooth_events_def op_handler_def http_handler_defs begin_op_def ArmDeadline_def
      finish_def cancel_deadline_at_def)

text \<open>
  C13: when nothing fails, a download of \<open>host/path\<close> sends the one request line and headers
  for that path and host, and hands over exactly the bytes after the first empty line of
  the response, under the last component of the path and with the flags it was started
  with. The header is not looked at, so this holds for every status code.
\<close>

theorem http_download_delivers_body:
  assumes "parseHTTPUrl filename \<lparr>hp_host = [], hp_path = [], hp_port = []\<rparr> = Some (True, p)"
    and "resolve (hp_host p) (hp_port p) = Inr ep" and "sni (hp_host p) = None"
    and "\<not> sublist header_end (hdr @ [CHR 0x0D, CHR 0x0A, CHR 0x0D])"
  shows "\<exists>s s'. HTTPLoader_LoadASync resolve sni filename parse save = Inr (''test'', s, []) \<and>
     dev_run http_step s (smooth_events (hdr @ header_end @ body)) =
       (s', [Io (Send (get_request (HTTPDevice (hp_host p) (hp_path p) (hp_port p) parse save))),
             Handle_read (Inr (Some ([path_filename (hp_path p)], [body]))) parse save])"
proof -
  let ?d = "HTTPDevice (hp_host p) (hp_path p) (hp_port p) parse save"
  let ?s = "begin_op (Connecting 0) (snd (ArmDeadline \<lparr>hr_device = ?d, hr_deadlines = [], hr_op = None\<rparr>))"
  have start: "HTTPLoader_LoadASync resolve sni filename parse save = Inr (''test'', ?s, [])"
    using assms(1-3)
    by (simp add: HTTPLoader_LoadASync_def StartHTTPDownload_def HTTPDevice_def ArmDeadline_def Let_def)
  obtain s' as where run: "dev_run http_step ?s (smooth_events (hdr @ header_end @ body)) = (s', as)"
    by (cases "dev_run http_step ?s (smooth_events (hdr @ header_end @ body))")
  from smooth_run[OF run] http_response_body[OF assms(4), of ?d body]
  have "as = [Io (Send (get_request ?d)),
      Handle_read (Inr (Some ([path_filename (hp_path p)], [body]))) parse save]"
    by (simp add: HTTPDevice_def)
  with start run show ?thesis by blast
qed

section \<open>Deadlines\<close>

fun op_deadline :: "http_op \<Rightarrow> nat" where
  "op_deadline (Connecting i) = i"
| "op_deadline (Handshaking i) = i"
| "op_deadline (Writing i) = i"
| "op_deadline (Reading i) = i"

fun is_reading :: "http_op \<Rightarrow> bool" where
  "is_reading (Reading _) = True"
| "is_reading _ = False"

text \<open>
  The deadline of the pending operation exists and is still running, or it has fired; then
  the operation has finished, unless it is a read started after its deadline had fired.
\<close>

definition http_inv :: "http_run \<Rightarrow> bool" where
  "http_inv s \<longleftrightarrow>
     (case hr_op s of
        None \<Rightarrow> True
      | Some (opn, st) \<Rightarrow>
          op_deadline opn < length (hr_deadlines s) \<and>
          (let d = hr_deadlines s ! op_deadline opn
           in if dl_expired d
              then dl_timer d = Timer_done \<and> (st \<noteq> In_flight \<or> is_reading opn)
              else dl_timer d = Timer_waiting \<or> dl_timer d = Timer_due))"

lemma http_inv_fresh:
  "http_inv (begin_op opn s) \<longleftrightarrow>
     op_deadline opn < length (hr_deadlines s) \<and>
     (let d = hr_deadlines s ! op_deadline opn
      in if dl_expired d then dl_timer d = Timer_done \<and> is_reading opn
         else dl_timer d = Timer_waiting \<or> dl_timer d = Timer_due)"
  by (simp add: http_inv_def begin_op_def)

lemma hr_deadlines_updates [step_simps]:
  "hr_deadlines (begin_op opn s) = hr_deadlines s"
  "hr_deadlines (finish s) = hr_deadlines s"
  "hr_deadlines (cancel_deadline_at i s) =
     (hr_deadlines s)[i := CancelDeadline (hr_deadlines s ! i)]"
  by (simp_all add: begin_op_def finish_def cancel_deadline_at_def)

lemma http_inv_finish [simp]: "http_inv (finish s)"
  by (simp add: http_inv_def finish_def)

lemma op_handler_inv:
  assumes "http_inv s" and "hr_op s = Some (opn, Ready ec data)"
    and "op_handler opn ec data s = (s', as)"
  shows "http_inv s'"
proof (cases opn)
  case (Writing i)
  with assms show ?thesis
    by (auto simp: op_handler_def on_write_def Let_def http_inv_fresh http_inv_def[of s]
        split: if_splits)
qed (use assms in \<open>auto simp: op_handler_def http_handler_defs http_inv_fresh ArmDeadline_def
        step_simps nth_append split: if_splits\<close>)

lemma http_step_inv:
  assumes "http_inv s" and "http_step s e = (s', as)"
  shows "http_inv s'"
proof (cases e)
  case (Timer_expires i)
  with assms show ?thesis
    by (auto simp: http_inv_def nth_list_update Let_def split: if_splits option.splits)
next
  case (Timer_handler i)
  with assms show ?thesis
    by (auto simp: http_inv_def deadline_handler_def cancel_io_def nth_list_update Let_def
        split: if_splits option.splits timer_state.splits io_status.splits)
next
  case (Op_completes ec data)
  with assms show ?thesis
    by (auto simp: http_inv_def Let_def split: option.splits io_status.splits if_splits)
next
  case Op_handler
  with assms op_handler_inv show ?thesis
    by (auto split: option.splits prod.splits io_status.splits)
qed

lemma LoadASync_inv:
  "HTTPLoader_LoadASync resolve sni filename parse save = Inr (msg, s, as) \<Longrightarrow> http_inv s"
  by (auto simp: HTTPLoader_LoadASync_def StartHTTPDownload_def Let_def ArmDeadline_def
      begin_op_def http_inv_def split: option.splits if_splits sum.splits)


definition connecting_run :: "http_device \<Rightarrow> http_run" where
  "connecting_run d =
     begin_op (Connecting 0) (snd (ArmDeadline \<lparr>hr_device = d, hr_deadlines = [], hr_op = None\<rparr>))"

fun is_timer_event :: "http_event \<Rightarrow> bool" where
  "is_timer_event (Timer_expires _) = True"
| "is_timer_event (Timer_handler _) = True"
| "is_timer_event _ = False"

definition late_write_events :: "http_event list" where
  "late_write_events =
     [Op_completes ec_success [], Op_handler, Op_completes ec_success [], Op_handler,
      Op_completes ec_success [], Timer_expires 2, Timer_handler 2, Op_handler]"

definition unguarded :: "http_run \<Rightarrow> bool" where
  "unguarded s \<longleftrightarrow> hr_op s = Some (Reading 2, In_flight) \<and>
     (\<forall>d\<in>set (hr_deadlines s). dl_timer d = Timer_cancelled \<or> dl_timer d = Timer_done)"

lemma late_write_unguarded: "unguarded (fst (dev_run http_step (connecting_run d) late_write_events))"
  by (simp add: connecting_run_def late_write_events_def op_handler_def http_handler_defs
      begin_op_def ArmDeadline_def cancel_deadline_at_def CancelDeadline_def deadline_handler_def
      cancel_io_def unguarded_def)

lemma unguarded_step:
  "unguarded s \<Longrightarrow> is_timer_event e \<Longrightarrow> http_step s e = (s', as) \<Longrightarrow> unguarded s'"
  by (cases e) (auto simp: unguarded_def deadline_handler_def all_set_conv_all_nth nth_list_update
      split: if_splits timer_state.splits)

text \<open>
  A deadline that fires between the completion of the write and the run of the write
  handler cancels nothing, and the read started by that handler shares it: from then on no
  timer can end the download, whose read may stay pending for ever.
\<close>

theorem http_read_can_lose_its_deadline:
  assumes "\<forall>e\<in>set es. is_timer_event e"
  shows "hr_op (fst (dev_run http_step (connecting_run d) (late_write_events @ es))) =
     Some (Reading 2, In_flight)"
proof -
  obtain s1 a1 where 1: "dev_run http_step (connecting_run d) late_write_events = (s1, a1)"
    by (cases "dev_run http_step (connecting_run d) late_write_events")
  obtain s2 a2 where 2: "dev_run http_step s1 es = (s2, a2)" by (cases "dev_run http_step s1 es")
  have "unguarded s1" using late_write_unguarded[of d] 1 by simp
  then have "unguarded s2"
    by (rule dev_run_invariant[where Q = is_timer_event, OF 2])
      (use assms unguarded_step in auto)
  then show ?thesis using 1 2 by (simp add: dev_run_append unguarded_def)
qed

text \<open>No deadline has fired or is about to.\<close>

definition quiet :: "http_run \<Rightarrow> bool" where
  "quiet s \<longleftrightarrow> (\<forall>d\<in>set (hr_deadlines s). \<not> dl_expired d \<and> dl_timer d \<noteq> Timer_due)"

lemma quiet_simps [step_simps]:
  "quiet (begin_op opn s) = quiet s" "quiet (finish s) = quiet s"
  "quiet (snd (ArmDeadline s)) = quiet s"
  "quiet s \<Longrightarrow> quiet (cancel_deadline_at i s)"
  "quiet s \<Longrightarrow> i < length (hr_deadlines s) \<Longrightarrow> \<not> expired_at i s"
proof -
  show "quiet (cancel_deadline_at i s)" if "quiet s"
    using that by (cases "i < length (hr_deadlines s)")
      (auto simp: quiet_def step_simps all_set_conv_all_nth nth_list_update CancelDeadline_def)
qed (auto simp: quiet_def ArmDeadline_def step_simps expired_at_def)

lemma op_handler_quiet:
  assumes "quiet s" and "op_deadline opn < length (hr_deadlines s)"
    and "op_handler opn ec data s = (s', as)"
  shows "quiet s' \<and> (\<forall>p q. Handle_read (Inl (Http_failed TIMEOUT)) p q \<notin> set as)"
proof -
  have c: "quiet (cancel_deadline_at i s)" "\<not> expired_at (op_deadline opn) (cancel_deadline_at i s)" for i
    using assms(1,2) by (auto intro!: quiet_simps simp: step_simps)
  show ?thesis
    using assms(3) c assms(1)
    by (cases opn) (auto simp: op_handler_def http_handler_defs case_prod_beta quiet_simps(1-3)
        http_response_def split: if_splits option.splits)
qed

lemma http_step_quiet:
  assumes "http_inv s" and "quiet s" and "\<forall>i. e \<noteq> Timer_expires i" and "http_step s e = (s', as)"
  shows "quiet s' \<and> (\<forall>p q. Handle_read (Inl (Http_failed TIMEOUT)) p q \<notin> set as)"
proof (cases e)
  case (Timer_handler i)
  with assms show ?thesis
    by (auto simp: quiet_def deadline_handler_def all_set_conv_all_nth nth_list_update
        split: if_splits timer_state.splits)
next
  case (Op_completes ec data)
  with assms show ?thesis
    by (auto simp: quiet_def split: option.splits io_status.splits)
next
  case Op_handler
  show ?thesis
  proof (cases "\<exists>opn ec data. hr_op s = Some (opn, Ready ec data)")
    case True
    then obtain opn ec data where op: "hr_op s = Some (opn, Ready ec data)" by blast
    with assms(1) have "op_deadline opn < length (hr_deadlines s)" by (simp add: http_inv_def)
    with op_handler_quiet[OF assms(2) this] assms(4) Op_handler op show ?thesis by simp
  next
    case False
    with assms Op_handler show ?thesis
      by (auto split: option.splits io_status.splits)
  qed
qed (use assms in simp)


text \<open>
  A deadline cancelled too late cancels the next operation: when the connect deadline
  is due but its handler runs only after the connect handler, it aborts the TLS handshake
  of a healthy connection, and the failure is reported as \<open>HANDSHAKE_ERROR\<close>, not as
  \<open>TIMEOUT\<close>.
\<close>

theorem http_late_deadline_aborts_handshake:
  "\<exists>s'. dev_run http_step (connecting_run d)
     [Op_completes ec_success [], Timer_expires 0, Op_handler, Timer_handler 0, Op_handler] =
     (s', [Handle_read (Inl (Http_failed HANDSHAKE_ERROR)) False False]) \<and> hr_op s' = None"
  by (simp add: connecting_run_def op_handler_def http_handler_defs begin_op_def ArmDeadline_def
      cancel_deadline_at_def CancelDeadline_def deadline_handler_def cancel_io_def expired_at_def
      finish_def)

section \<open>Witnesses\<close>

abbreviation (input) sample_resolve :: "string \<Rightarrow> string \<Rightarrow> exn + nat" where
  "sample_resolve \<equiv> \<lambda>host port. Inr 1"

definition sample_http_run :: http_run where
  "sample_http_run = connecting_run (HTTPDevice ''h'' ''/d/f.bin'' ''443'' False True)"

lemma sample_LoadASync:
  "HTTPLoader_LoadASync sample_resolve (\<lambda>_. None) ''h/d/f.bin'' False True =
     Inr (''test'', sample_http_run, [])"
  by code_simp

lemma http_completes_exactly_once_witness:
  "completions ([] @ snd (dev_run http_step sample_http_run
       [Op_completes \<lparr>ec_value = 111, ec_category = System_category\<rparr> [], Op_handler])) = 1"
proof -
  obtain s' as where r: "dev_run http_step sample_http_run
       [Op_completes \<lparr>ec_value = 111, ec_category = System_category\<rparr> [], Op_handler] = (s', as)"
    by (cases "dev_run http_step sample_http_run
       [Op_completes \<lparr>ec_value = 111, ec_category = System_category\<rparr> [], Op_handler]")
  have "hr_op (fst (dev_run http_step sample_http_run
       [Op_completes \<lparr>ec_value = 111, ec_category = System_category\<rparr> [], Op_handler])) = None"
    by code_simp
  with http_completes_exactly_once[OF sample_LoadASync r] r show ?thesis by simp
qed

lemma http_download_delivers_body_witness:
  "\<exists>s s'. HTTPLoader_LoadASync sample_resolve (\<lambda>_. None) ''h/d/f.bin'' False True =
       Inr (''test'', s, []) \<and>
     dev_run http_step s (smooth_events (''HTTP/1.1 404 Not Found'' @ header_end @ ''gone'')) =
       (s', [Io (Send (get_request (HTTPDevice ''h'' ''/d/f.bin'' ''443'' False True))),
             Handle_read (Inr (Some ([''f.bin''], [''gone'']))) False True])"
proof -
  have "parseHTTPUrl ''h/d/f.bin'' \<lparr>hp_host = [], hp_path = [], hp_port = []\<rparr> =
      Some (True, \<lparr>hp_host = ''h'', hp_path = ''/d/f.bin'', hp_port = ''443''\<rparr>)"
    by code_simp
  moreover have "\<not> sublist header_end (''HTTP/1.1 404 Not Found'' @ [CHR 0x0D, CHR 0x0A, CHR 0x0D])"
    by code_simp
  moreover have "path_filename ''/d/f.bin'' = ''f.bin''" by code_simp
  ultimately show ?thesis
    using http_download_delivers_body[of "''h/d/f.bin''" _ sample_resolve 1 "\<lambda>_. None"
        "''HTTP/1.1 404 Not Found''" False True "''gone''"]
    by auto
qed


lemma http_read_can_lose_its_deadline_witness:
  "hr_op (fst (dev_run http_step (connecting_run (HTTPDevice ''h'' ''/f'' ''443'' False False))
     (late_write_events @ [Timer_expires 2, Timer_handler 1]))) = Some (Reading 2, In_flight)"
  by (rule http_read_can_lose_its_deadline) simp


end
