(* ===== verification/WsDevice.thy ===== *)
theory WsDevice
  imports AsioContext UrlStringUtil
begin

text \<open>
  \<open>src/WSCommon.cpp\<close> and \<open>src/WSLoader.cpp\<close>: the download over a TLS WebSocket. Five
  asynchronous operations follow one another without a deadline; the peer marks the end
  of the file with the text "WSEOF". The bytes handed to \<open>async_write\<close> are those of the
  local string \<open>request\<close>, whose lifetime the model does not track.
\<close>

section \<open>Errors\<close>

datatype ws_error =
    WS_COULD_NOT_RESOLVE | WS_TLS_HANDSHAKE_ERROR | WS_CONNECT_ERROR | WS_NO_EOF
  | WS_HANDSHAKE_ERROR

fun ws_error_message :: "ws_error \<Rightarrow> string" where
  "ws_error_message WS_COULD_NOT_RESOLVE = ''Could not resolve address''"
| "ws_error_message WS_TLS_HANDSHAKE_ERROR = ''WSS HTTP Handshake Error''"
| "ws_error_message WS_CONNECT_ERROR = ''WSS Connect Error''"
| "ws_error_message WS_NO_EOF = ''Data missing EOF''"
| "ws_error_message WS_HANDSHAKE_ERROR = ''WSS WSS Handshake Error''"

datatype ws_loader_error = WS_INVALID_URL

fun ws_loader_error_message :: "ws_loader_error \<Rightarrow> string" where
  "ws_loader_error_message WS_INVALID_URL = ''Invalid URL''"

text \<open>The two enumerations a load can fail with, as error codes of their categories.\<close>

datatype ws_failure = Ws_failed ws_error | Ws_url_failed ws_loader_error

section \<open>The device\<close>

record ws_device =
  ws_host :: string
  ws_path :: string
  ws_port :: string
  ws_parse :: bool
  ws_save :: bool

definition WSDevice :: "string \<Rightarrow> string \<Rightarrow> string \<Rightarrow> bool \<Rightarrow> bool \<Rightarrow> ws_device" where
  "WSDevice host path port parse save =
     \<lparr>ws_host = host, ws_path = path, ws_port = port, ws_parse = parse, ws_save = save\<rparr>"

datatype ws_op = Ws_connecting | Ws_tls_handshaking | Ws_handshaking | Ws_writing | Ws_reading

text \<open>
  A download in progress: \<open>wr_endpoints\<close> is the number of endpoints \<open>async_connect\<close> may
  try, \<open>wr_lost\<close> is set when a handler has returned without starting an operation and
  without calling the completion callback.
\<close>

record ws_run =
  wr_device :: ws_device
  wr_endpoints :: nat
  wr_op :: "(ws_op \<times> io_status) option"
  wr_lost :: bool

datatype ws_io = Ws_send bytes

type_synonym ws_act = "(ws_failure, ws_io) act"

definition ws_begin :: "ws_op \<Rightarrow> ws_run \<Rightarrow> ws_run" where
  "ws_begin opn s = s\<lparr>wr_op := Some (opn, In_flight)\<rparr>"

definition ws_finish :: "ws_run \<Rightarrow> ws_run" where
  "ws_finish s = s\<lparr>wr_op := None\<rparr>"

definition ws_fail :: "ws_error \<Rightarrow> ws_run \<Rightarrow> ws_run \<times> ws_act list" where
  "ws_fail e s = (ws_finish s, [Handle_read (Inl (Ws_failed e)) False False])"

section \<open>StartWSGet\<close>

definition StartWSGet :: "ws_run \<Rightarrow> ws_run \<times> ws_act list" where
  "StartWSGet s = (ws_begin Ws_handshaking s, [])"

definition ws_on_ws_handshake :: "error_code \<Rightarrow> ws_run \<Rightarrow> ws_run \<times> ws_act list" where
  "ws_on_ws_handshake handshakeError s =
     (if \<not> ec_failed handshakeError
      then (ws_begin Ws_writing s, [Io (Ws_send ''GET_FILE'')])
      else ws_fail WS_HANDSHAKE_ERROR s)"

text \<open>A write error is logged and nothing else.\<close>

definition ws_on_write :: "error_code \<Rightarrow> ws_run \<Rightarrow> ws_run \<times> ws_act list" where
  "ws_on_write write_error s =
     (if \<not> ec_failed write_error then (ws_begin Ws_reading s, [])
      else (ws_finish s\<lparr>wr_lost := True\<rparr>, []))"

definition ws_on_read :: "error_code \<Rightarrow> bytes \<Rightarrow> ws_run \<Rightarrow> ws_run \<times> ws_act list" where
  "ws_on_read read_error buffer s =
     (if \<not> ec_failed read_error
      then let dataSize = length buffer - 5
           in (ws_finish s,
               [Handle_read (Inr (Some ([path_filename (ws_path (wr_device s))], [take dataSize buffer])))
                  (ws_parse (wr_device s)) (ws_save (wr_device s))])
      else ws_fail WS_NO_EOF s)"

section \<open>StartWSDownload\<close>

definition ws_on_tls_handshake :: "error_code \<Rightarrow> ws_run \<Rightarrow> ws_run \<times> ws_act list" where
  "ws_on_tls_handshake handshakeError s =
     (if \<not> ec_failed handshakeError then StartWSGet s else ws_fail WS_TLS_HANDSHAKE_ERROR s)"

definition ws_on_connect :: "error_code \<Rightarrow> ws_run \<Rightarrow> ws_run \<times> ws_act list" where
  "ws_on_connect error s =
     (if \<not> ec_failed error then (ws_begin Ws_tls_handshaking s, []) else ws_fail WS_CONNECT_ERROR s)"

text \<open>
  \<open>resolve\<close> gives the endpoints. None of the three catch clauses returns, so the function
  goes on and connects with the empty \<open>results\<close>.
\<close>

definition StartWSDownload ::
  "(string \<Rightarrow> string \<Rightarrow> exn + 'ep list) \<Rightarrow> ws_device \<Rightarrow> ws_run \<times> ws_act list" where
  "StartWSDownload resolve d =
     (case resolve (ws_host d) (ws_port d) of
        Inl _ \<Rightarrow>
          (\<lparr>wr_device = d, wr_endpoints = 0, wr_op = Some (Ws_connecting, In_flight), wr_lost = False\<rparr>,
           [Post_read (Inl (Ws_failed WS_COULD_NOT_RESOLVE)) False False])
      | Inr results \<Rightarrow>
          (\<lparr>wr_device = d, wr_endpoints = length results, wr_op = Some (Ws_connecting, In_flight),
            wr_lost = False\<rparr>, []))"

section \<open>The run of a download\<close>

datatype ws_event = Ws_completes error_code bytes | Ws_handler

definition ws_result :: "ws_run \<Rightarrow> ws_op \<Rightarrow> error_code \<Rightarrow> error_code" where
  "ws_result s opn ec = (if opn = Ws_connecting \<and> wr_endpoints s = 0 then ec_not_found else ec)"

definition ws_op_handler :: "ws_op \<Rightarrow> error_code \<Rightarrow> bytes \<Rightarrow> ws_run \<Rightarrow> ws_run \<times> ws_act list" where
  "ws_op_handler opn ec data s =
     (case opn of
        Ws_connecting \<Rightarrow> ws_on_connect ec s
      | Ws_tls_handshaking \<Rightarrow> ws_on_tls_handshake ec s
      | Ws_handshaking \<Rightarrow> ws_on_ws_handshake ec s
      | Ws_writing \<Rightarrow> ws_on_write ec s
      | Ws_reading \<Rightarrow> ws_on_read ec data s)"

text \<open>
  \<open>async_read_until\<close> reports success only when the mark is in the buffer, so an event that
  says otherwise does not happen.
\<close>

fun ws_step :: "ws_run \<Rightarrow> ws_event \<Rightarrow> ws_run \<times> ws_act list" where
  "ws_step s (Ws_completes ec data) =
     (case wr_op s of
        Some (opn, In_flight) \<Rightarrow>
          if opn = Ws_reading \<and> \<not> ec_failed ec \<and> \<not> sublist ''WSEOF'' data then (s, [])
          else (s\<lparr>wr_op := Some (opn, Ready (ws_result s opn ec) data)\<rparr>, [])
      | _ \<Rightarrow> (s, []))"
| "ws_step s Ws_handler =
     (case wr_op s of
        Some (opn, Ready ec data) \<Rightarrow> ws_op_handler opn ec data s
      | _ \<Rightarrow> (s, []))"

section \<open>WSLoader\<close>

definition WSLoader_LoadFile :: "string \<Rightarrow> string" where
  "WSLoader_LoadFile filename = ''Inside the WSLoader::LoadFile Function''"

definition WSLoader_LoadASync ::
  "(string \<Rightarrow> string \<Rightarrow> exn + 'ep list) \<Rightarrow> string \<Rightarrow> bool \<Rightarrow> bool \<Rightarrow>
   exn + (string \<times> ws_run \<times> ws_act list)" where
  "WSLoader_LoadASync resolve filename parse save =
     (case parseHTTPUrl filename \<lparr>hp_host = [], hp_path = [], hp_port = []\<rparr> of
        None \<Rightarrow> Inl Out_of_range
      | Some (ok, p) \<Rightarrow>
          let d = WSDevice (hp_host p) (hp_path p) (hp_port p) parse save
          in if \<not> ok
             then Inr (''test'', \<lparr>wr_device = d, wr_endpoints = 0, wr_op = None, wr_lost = False\<rparr>,
                       [Post_read (Inl (Ws_url_failed WS_INVALID_URL)) False False])
             else let (s, as) = StartWSDownload resolve d in Inr (''test'', s, as))"

section \<open>How often a download completes\<close>

abbreviation ws_live :: "ws_run \<Rightarrow> bool" where
  "ws_live s \<equiv> wr_op s \<noteq> None \<or> wr_lost s"

definition ws_wf :: "ws_run \<Rightarrow> bool" where
  "ws_wf s \<longleftrightarrow> (wr_lost s \<longrightarrow> wr_op s = None)"

lemmas ws_handler_defs = ws_op_handler_def ws_on_connect_def ws_on_tls_handshake_def StartWSGet_def
  ws_on_ws_handshake_def ws_on_write_def ws_on_read_def ws_begin_def ws_finish_def ws_fail_def Let_def

text \<open>A lost download counts as one that is still going on: it never completes.\<close>

interpretation ws: one_shot ws_step ws_wf ws_live
proof unfold_locales
  fix s e s' and as :: "ws_act list"
  show "ws_wf s \<Longrightarrow> ws_step s e = (s', as) \<Longrightarrow> ws_wf s'"
    by (cases e) (auto simp: ws_wf_def ws_handler_defs
        split: option.splits prod.splits io_status.splits ws_op.splits if_splits)
  show "ws_wf s \<Longrightarrow> ws_live s \<Longrightarrow> ws_step s e = (s', as) \<Longrightarrow>
      completions as = (if ws_live s' then 0 else 1)"
    by (cases e) (auto simp: ws_wf_def ws_handler_defs
        split: option.splits prod.splits io_status.splits ws_op.splits if_splits)
  show "ws_wf s \<Longrightarrow> \<not> ws_live s \<Longrightarrow> ws_step s e = (s', as) \<Longrightarrow> \<not> ws_live s' \<and> completions as = 0"
    by (cases e) (auto split: option.splits)
qed


text \<open>A loader that resolves nothing, and one that finds one endpoint.\<close>

abbreviation (input) no_resolve :: "string \<Rightarrow> string \<Rightarrow> exn + unit list" where
  "no_resolve \<equiv> \<lambda>h p. Inl System_error"

abbreviation (input) one_endpoint :: "string \<Rightarrow> string \<Rightarrow> exn + unit list" where
  "one_endpoint \<equiv> \<lambda>h p. Inr [()]"

definition sample_ws :: ws_device where
  "sample_ws = WSDevice ''host'' ''/d/f.mnn'' ''443'' False True"


section \<open>A failed write\<close>

lemma ws_lost_forever:
  "wr_lost s \<Longrightarrow> ws_wf s \<Longrightarrow> dev_run ws_step s es = (s', as) \<Longrightarrow> wr_lost s' \<and> as = []"
proof (induction es arbitrary: s as)
  case (Cons e es)
  then obtain s1 a1 b1 where st: "ws_step s e = (s1, a1)" "dev_run ws_step s1 es = (s', b1)"
      and as: "as = a1 @ b1"
    unfolding dev_run_Cons_eq by blast
  from st(1) Cons.prems(1,2) have "s1 = s \<and> a1 = []" by (cases e) (auto simp: ws_wf_def)
  with Cons.IH[of s b1] Cons.prems(1,2) st(2) as show ?case by simp
qed simp

text \<open>
  When the write of the request fails, the completion callback is never called,
  whatever happens afterwards: the operation stays outstanding in the file manager.
\<close>

theorem ws_write_error_is_lost:
  assumes "wr_op s = Some (Ws_writing, Ready ec data)" and "ec_failed ec" and "ws_wf s"
    and "dev_run ws_step s (Ws_handler # es) = (s', as)"
  shows "completions as = 0 \<and> ws_live s'"
proof -
  obtain s1 a1 b1 where st: "ws_step s Ws_handler = (s1, a1)" "dev_run ws_step s1 es = (s', b1)"
      and as: "as = a1 @ b1"
    using assms(4) unfolding dev_run_Cons_eq by blast
  have "wr_lost s1" "ws_wf s1" "a1 = []"
    using st(1) assms(1,2) by (auto simp: ws_handler_defs ws_wf_def)
  with ws_lost_forever[OF _ _ st(2)] as show ?thesis by simp
qed

lemma ws_write_error_is_lost_witness:
  "completions (snd (dev_run ws_step
     \<lparr>wr_device = sample_ws, wr_endpoints = 1, wr_op = Some (Ws_writing, Ready ec_eof []), wr_lost = False\<rparr>
     [Ws_handler, Ws_completes ec_success []])) = 0"
  using ws_write_error_is_lost[OF _ _ _ prod.collapse[symmetric], of
     "\<lparr>wr_device = sample_ws, wr_endpoints = 1, wr_op = Some (Ws_writing, Ready ec_eof []), wr_lost = False\<rparr>"
     ec_eof "[]" "[Ws_completes ec_success []]"]
  by (simp add: ws_wf_def)

section \<open>The delivered file\<close>

text \<open>What \<open>async_read_until\<close> may leave in the buffer: a prefix of the stream that has the mark.\<close>

definition read_until_mark :: "bytes \<Rightarrow> bytes \<Rightarrow> bool" where
  "read_until_mark stream buffer \<longleftrightarrow> prefix buffer stream \<and> sublist ''WSEOF'' buffer"

definition ws_smooth_events :: "bytes \<Rightarrow> ws_event list" where
  "ws_smooth_events buffer =
     [Ws_completes ec_success [], Ws_handler, Ws_completes ec_success [], Ws_handler,
      Ws_completes ec_success [], Ws_handler, Ws_completes ec_success [], Ws_handler,
      Ws_completes ec_success buffer, Ws_handler]"

lemma read_until_whole:
  assumes "\<not> sublist ''WSEOF'' (body @ ''WSEO'')" and "read_until_mark (body @ ''WSEOF'') buffer"
  shows "buffer = body @ ''WSEOF''"
proof (rule ccontr)
  assume "buffer \<noteq> body @ ''WSEOF''"
  moreover have "prefix buffer ((body @ ''WSEO'') @ [CHR ''F''])" and mark: "sublist ''WSEOF'' buffer"
    using assms(2) by (simp_all add: read_until_mark_def)
  ultimately have "prefix buffer (body @ ''WSEO'')" unfolding prefix_snoc by simp
  with mark assms(1) show False using prefix_imp_sublist sublist_order.order.trans by blast
qed

text \<open>
  C24: when nothing fails and the mark occurs in the stream only at its end, the download
  sends one request and delivers exactly the file, under the last component of the path
  and with the flags it was asked for; a file that holds the mark itself may be cut
  there, as \<open>async_read_until\<close> may stop at the first mark.
\<close>

theorem ws_download_delivers_body:
  assumes "resolve (ws_host d) (ws_port d) = Inr (ep # eps)"
    and "StartWSDownload resolve d = (s, as0)"
    and "read_until_mark stream buffer"
    and "dev_run ws_step s (ws_smooth_events buffer) = (s', as)"
  shows "as0 @ as = [Io (Ws_send ''GET_FILE''),
      Handle_read (Inr (Some ([path_filename (ws_path d)], [take (length buffer - 5) buffer])))
        (ws_parse d) (ws_save d)] \<and>
    (stream = body @ ''WSEOF'' \<and> \<not> sublist ''WSEOF'' (body @ ''WSEO'') \<longrightarrow>
       take (length buffer - 5) buffer = body) \<and>
    (stream = pre @ ''WSEOF'' @ rest \<longrightarrow> read_until_mark stream (pre @ ''WSEOF'') \<and>
       take (length (pre @ ''WSEOF'') - 5) (pre @ ''WSEOF'') = pre)"
proof -
  have "as0 @ as = [Io (Ws_send ''GET_FILE''),
      Handle_read (Inr (Some ([path_filename (ws_path d)], [take (length buffer - 5) buffer])))
        (ws_parse d) (ws_save d)]"
    using assms
    by (auto simp: read_until_mark_def StartWSDownload_def ws_smooth_events_def ws_result_def ws_handler_defs)
  moreover have "take (length buffer - 5) buffer = body"
    if "stream = body @ ''WSEOF''" "\<not> sublist ''WSEOF'' (body @ ''WSEO'')"
    using read_until_whole[of body buffer] that assms(3) by simp
  moreover have "read_until_mark stream (pre @ ''WSEOF'')" if "stream = pre @ ''WSEOF'' @ rest"
    using that by (auto simp: read_until_mark_def sublist_append)
  ultimately show ?thesis by simp
qed

lemma ws_download_delivers_body_witness:
  "snd (dev_run ws_step (fst (StartWSDownload one_endpoint sample_ws)) (ws_smooth_events ''abWSEOF'')) =
   [Io (Ws_send ''GET_FILE''), Handle_read (Inr (Some ([''f.mnn''], [''ab'']))) False True]"
proof -
  have mark: "read_until_mark ''abWSEOF'' ''abWSEOF''"
    by (simp add: read_until_mark_def sublist_def) (metis append_Cons append_Nil append_Nil2)
  from ws_download_delivers_body[of one_endpoint sample_ws "()" "[]", OF _ prod.collapse[symmetric] mark
      prod.collapse[symmetric]]
  show ?thesis by (simp add: sample_ws_def WSDevice_def path_filename_def StartWSDownload_def)
qed

end
