(* ===== verification/OperatingSystem.thy ===== *)
theory OperatingSystem
  imports AsioContext CxxString
begin

text \<open>
  The part of the operating system and of the standard library that the local loader and
  the savers use: the directory tree behind \<open>std::filesystem\<close>, \<open>std::ifstream\<close>,
  \<open>std::ofstream\<close> and \<open>open\<close>, the process's descriptor table, and \<open>FILEDevice\<close>
  (\<open>include/FILECommon.hpp\<close>, \<open>src/FILECommon.cpp\<close>), its two platform branches.

  There are no symbolic links, so \<open>..\<close> is resolved on the text of the path. What the
  system refuses (permissions, quotas, too many descriptors) is the field
  \<open>os_refuses\<close>: the errno of an attempt to open or create a path, zero when allowed.
\<close>

section \<open>Paths\<close>

fun split_slash :: "string \<Rightarrow> string list" where
  "split_slash [] = [[]]"
| "split_slash (c # s) =
     (if c = CHR ''/'' then [] # split_slash s
      else case split_slash s of [] \<Rightarrow> [[c]] | x # xs \<Rightarrow> (c # x) # xs)"

fun walk_path :: "string list \<Rightarrow> string list \<Rightarrow> string list" where
  "walk_path d [] = d"
| "walk_path d (c # cs) =
     (if c = [] \<or> c = ''.'' then walk_path d cs
      else if c = ''..'' then walk_path (butlast d) cs
      else walk_path (d @ [c]) cs)"

datatype node = Directory | Regular bytes

record os =
  os_nodes :: "string list \<rightharpoonup> node"
  os_cwd :: "string list"
  os_refuses :: "string list \<Rightarrow> int"
  os_fds :: "nat list"

definition resolve_path :: "'x os_scheme \<Rightarrow> string \<Rightarrow> string list" where
  "resolve_path s p = walk_path (if path_is_absolute p then [] else os_cwd s) (split_slash p)"

text \<open>The root directory always exists.\<close>

definition node_at :: "'x os_scheme \<Rightarrow> string list \<Rightarrow> node option" where
  "node_at s q = (if q = [] then Some Directory else os_nodes s q)"

definition put_node :: "string list \<Rightarrow> node \<Rightarrow> 'x os_scheme \<Rightarrow> 'x os_scheme" where
  "put_node q n s = s\<lparr>os_nodes := (os_nodes s)(q \<mapsto> n)\<rparr>"

definition errno_ENOENT :: int where "errno_ENOENT = 2"

definition errno_EISDIR :: int where "errno_EISDIR = 21"

section \<open>std::filesystem and the stream classes\<close>

definition path_exists :: "'x os_scheme \<Rightarrow> string \<Rightarrow> bool" where
  "path_exists s p \<longleftrightarrow> p \<noteq> [] \<and> node_at s (resolve_path s p) \<noteq> None"

text \<open>Opening for reading; a directory can be opened too.\<close>

definition open_read :: "'x os_scheme \<Rightarrow> string \<Rightarrow> int + node" where
  "open_read s p =
     (if p = [] then Inl errno_ENOENT
      else case node_at s (resolve_path s p) of
             None \<Rightarrow> Inl errno_ENOENT
           | Some n \<Rightarrow> if os_refuses s (resolve_path s p) \<noteq> 0
                       then Inl (os_refuses s (resolve_path s p)) else Inr n)"

text \<open>\<open>open\<close> with \<open>O_WRONLY | O_CREAT\<close>: the contents of an existing file stay.\<close>

definition open_create :: "string \<Rightarrow> 'x os_scheme \<Rightarrow> (int + string list) \<times> 'x os_scheme" where
  "open_create p s =
     (let q = resolve_path s p
      in if p = [] then (Inl errno_ENOENT, s)
         else case node_at s q of
                Some Directory \<Rightarrow> (Inl errno_EISDIR, s)
              | Some (Regular _) \<Rightarrow> if os_refuses s q \<noteq> 0 then (Inl (os_refuses s q), s) else (Inr q, s)
              | None \<Rightarrow>
                  if path_filename p = [] then (Inl errno_EISDIR, s)
                  else if node_at s (butlast q) \<noteq> Some Directory then (Inl errno_ENOENT, s)
                  else if os_refuses s q \<noteq> 0 then (Inl (os_refuses s q), s)
                  else (Inr q, put_node q (Regular []) s))"

text \<open>\<open>std::ofstream( p, binary )\<close> truncates; the flag tells whether it is open.\<close>

definition ofstream_open :: "string \<Rightarrow> 'x os_scheme \<Rightarrow> bool \<times> 'x os_scheme" where
  "ofstream_open p s =
     (case open_create p s of
        (Inl _, s1) \<Rightarrow> (False, s1)
      | (Inr q, s1) \<Rightarrow> (True, put_node q (Regular []) s1))"

text \<open>Writing from the start of a file: what lies behind the written bytes stays.\<close>

definition write_at_start :: "string list \<Rightarrow> bytes \<Rightarrow> 'x os_scheme \<Rightarrow> 'x os_scheme" where
  "write_at_start q bs s =
     (case os_nodes s q of
        Some (Regular old) \<Rightarrow> put_node q (Regular (bs @ drop (length bs) old)) s
      | _ \<Rightarrow> s)"

fun make_dirs :: "string list \<Rightarrow> string list \<Rightarrow> 'x os_scheme \<Rightarrow> (exn + unit) \<times> 'x os_scheme" where
  "make_dirs upto_dir [] s = (Inr (), s)"
| "make_dirs upto_dir (c # cs) s =
     (let q = upto_dir @ [c]
      in case node_at s q of
           Some Directory \<Rightarrow> make_dirs q cs s
         | Some (Regular _) \<Rightarrow> (Inl Filesystem_error, s)
         | None \<Rightarrow>
             if os_refuses s q \<noteq> 0 then (Inl Filesystem_error, s)
             else make_dirs q cs (put_node q Directory s))"

text \<open>\<open>create_directories\<close> throws for the empty path too (invalid argument).\<close>

definition create_directories :: "string \<Rightarrow> 'x os_scheme \<Rightarrow> (exn + unit) \<times> 'x os_scheme" where
  "create_directories p s =
     (if p = [] then (Inl Filesystem_error, s) else make_dirs [] (resolve_path s p) s)"

section \<open>FILEDevice\<close>

datatype open_flags = O_RDONLY | O_WRONLY_CREAT

record file_device =
  fd_name :: string
  fd_flags :: open_flags
  fd_fd :: int
  fd_path :: "string list"

definition FILEDevice :: "string \<Rightarrow> int \<Rightarrow> file_device" where
  "FILEDevice filename writemode =
     \<lparr>fd_name = filename, fd_flags = (if writemode = 0 then O_RDONLY else O_WRONLY_CREAT),
      fd_fd = - 1, fd_path = []\<rparr>"

text \<open>The lowest free descriptor, as POSIX requires.\<close>

definition free_fd :: "nat list \<Rightarrow> nat" where
  "free_fd fds = hd (filter (\<lambda>n. n \<notin> set fds) [0..<Suc (length fds)])"

definition close_fd :: "int \<Rightarrow> 'x os_scheme \<Rightarrow> 'x os_scheme" where
  "close_fd fd s = s\<lparr>os_fds := filter (\<lambda>n. int n \<noteq> fd) (os_fds s)\<rparr>"

definition posix_open :: "string \<Rightarrow> open_flags \<Rightarrow> 'x os_scheme \<Rightarrow>
   (int + (nat \<times> string list)) \<times> 'x os_scheme" where
  "posix_open p flags s =
     (case flags of
        O_RDONLY \<Rightarrow>
          (case open_read s p of
             Inl e \<Rightarrow> (Inl e, s)
           | Inr _ \<Rightarrow> let fd = free_fd (os_fds s)
                     in (Inr (fd, resolve_path s p), s\<lparr>os_fds := fd # os_fds s\<rparr>))
      | O_WRONLY_CREAT \<Rightarrow>
          (case open_create p s of
             (Inl e, s1) \<Rightarrow> (Inl e, s1)
           | (Inr q, s1) \<Rightarrow> let fd = free_fd (os_fds s1)
                           in (Inr (fd, q), s1\<lparr>os_fds := fd # os_fds s1\<rparr>)))"

text \<open>\<open>assign\<close> is \<open>stream_descriptor::assign\<close> of the asio library.\<close>

definition FILEDevice_Open ::
  "(nat \<Rightarrow> error_code) \<Rightarrow> file_device \<Rightarrow> 'x os_scheme \<Rightarrow> error_code \<times> file_device \<times> 'x os_scheme" where
  "FILEDevice_Open assign dev s =
     (case posix_open (fd_name dev) (fd_flags dev) s of
        (Inl errno, s1) \<Rightarrow>
          (\<lparr>ec_value = errno, ec_category = System_category\<rparr>, dev\<lparr>fd_fd := - 1\<rparr>, s1)
      | (Inr (fd, q), s1) \<Rightarrow>
          if ec_failed (assign fd) then (assign fd, dev\<lparr>fd_fd := - 1\<rparr>, close_fd (int fd) s1)
          else (assign fd, dev\<lparr>fd_fd := int fd, fd_path := q\<rparr>, s1))"

text \<open>
  The destructor's two statements: \<open>file_.close\<close> closes the descriptor the stream owns,
  \<open>close( fd_ )\<close> closes the same number again.
\<close>

definition destroy_close_stream :: "file_device \<Rightarrow> 'x os_scheme \<Rightarrow> 'x os_scheme" where
  "destroy_close_stream dev s = close_fd (fd_fd dev) s"

definition destroy_close_number :: "file_device \<Rightarrow> 'x os_scheme \<Rightarrow> 'x os_scheme" where
  "destroy_close_number dev s = close_fd (fd_fd dev) s"

definition destroy_FILEDevice :: "file_device \<Rightarrow> 'x os_scheme \<Rightarrow> 'x os_scheme" where
  "destroy_FILEDevice dev s = destroy_close_number dev (destroy_close_stream dev s)"

section \<open>FILEDevice on Windows\<close>

text \<open>
  The Windows branch opens an \<open>asio::stream_file\<close>; its \<open>open\<close> is the parameter
  \<open>file_open\<close>, over a state of its own. Here \<open>flags_\<close> is the \<open>writemode\<close> as given.
\<close>

datatype stream_file_flag = Read_only | Write_only | Create_file

record win_device =
  wd_name :: string
  wd_flags :: int
  wd_open :: bool

definition FILEDevice_win :: "string \<Rightarrow> int \<Rightarrow> win_device" where
  "FILEDevice_win filename writemode = \<lparr>wd_name = filename, wd_flags = writemode, wd_open = False\<rparr>"

definition stream_file_mode :: "int \<Rightarrow> stream_file_flag list" where
  "stream_file_mode flags =
     (let mode = (if flags = 0 then [Read_only] else [Write_only])
      in if flags = 1 then mode @ [Create_file] else mode)"

definition FILEDevice_win_Open ::
  "(string \<Rightarrow> stream_file_flag list \<Rightarrow> 'f \<Rightarrow> error_code \<times> 'f) \<Rightarrow> win_device \<Rightarrow> 'f \<Rightarrow>
   error_code \<times> win_device \<times> 'f" where
  "FILEDevice_win_Open file_open dev f =
     (let (ec, f1) = file_open (wd_name dev) (stream_file_mode (wd_flags dev)) f
      in (ec, dev\<lparr>wd_open := wd_open dev \<or> \<not> ec_failed ec\<rparr>, f1))"

text \<open>
  \<open>file_.close()\<close> throws when closing fails; in a destructor this ends the program
  (\<open>None\<close>).
\<close>

definition destroy_FILEDevice_win ::
  "(string \<Rightarrow> 'f \<Rightarrow> error_code \<times> 'f) \<Rightarrow> win_device \<Rightarrow> 'f \<Rightarrow> 'f option" where
  "destroy_FILEDevice_win file_close dev f =
     (if wd_open dev then
        let (ec, f1) = file_close (wd_name dev) f in if ec_failed ec then None else Some f1
      else Some f)"

text \<open>What the flags of the POSIX branch ask for, in the terms of the Windows branch.\<close>

fun flags_of_open :: "open_flags \<Rightarrow> stream_file_flag list" where
  "flags_of_open O_RDONLY = [Read_only]"
| "flags_of_open O_WRONLY_CREAT = [Write_only, Create_file]"

text \<open>
  The two branches ask for the same access exactly for the two documented modes: any other
  value creates the file on POSIX and does not on Windows.
\<close>

lemma branches_agree_iff:
  "stream_file_mode (wd_flags (FILEDevice_win p m)) = flags_of_open (fd_flags (FILEDevice p m)) \<longleftrightarrow>
   m = 0 \<or> m = 1"
  by (auto simp: stream_file_mode_def FILEDevice_win_def FILEDevice_def Let_def split: if_splits)

section \<open>Facts on paths\<close>

lemma split_slash_not_Nil [simp]: "split_slash s \<noteq> []"
  by (induction s) (auto split: list.splits)

lemma split_slash_append:
  "split_slash (a @ CHR ''/'' # b) = split_slash a @ split_slash b"
  by (induction a) (auto split: list.splits)

lemma split_slash_single [path_simps]: "CHR ''/'' \<notin> set n \<Longrightarrow> split_slash n = [n]"
  by (induction n) auto

lemma walk_path_append: "walk_path d (xs @ ys) = walk_path (walk_path d xs) ys"
  by (induction xs arbitrary: d) auto

text \<open>A proper name of an entry of a directory.\<close>

definition plain_name :: "string \<Rightarrow> bool" where
  "plain_name n \<longleftrightarrow> n \<noteq> [] \<and> n \<noteq> ''.'' \<and> n \<noteq> ''..'' \<and> CHR ''/'' \<notin> set n"

lemma walk_plain_name [path_simps]: "plain_name n \<Longrightarrow> walk_path d (split_slash n) = d @ [n]"
  by (simp add: plain_name_def split_slash_single)

lemma resolve_join:
  "a \<noteq> [] \<Longrightarrow> resolve_path s (a @ CHR ''/'' # b) = walk_path (resolve_path s a) (split_slash b)"
  using split_slash_append[of a b]
  by (cases a) (simp_all add: resolve_path_def path_is_absolute_def walk_path_append
      del: split_slash.simps)

lemma resolve_plain [path_simps]:
  "a \<noteq> [] \<Longrightarrow> plain_name n \<Longrightarrow> resolve_path s (a @ CHR ''/'' # n) = resolve_path s a @ [n]"
  by (simp add: resolve_join path_simps)

lemma resolve_trailing_slash [path_simps]:
  "a \<noteq> [] \<Longrightarrow> resolve_path s (a @ ''/'') = resolve_path s a"
  using resolve_join[of a s "[]"] by simp

lemma walk_stays_below:
  "''..'' \<notin> set cs \<Longrightarrow> prefix d (walk_path d cs)"
proof (induction cs arbitrary: d)
  case (Cons c cs)
  then show ?case
    by (auto intro: prefix_order.trans[of d "d @ [c]"])
qed simp

lemma walk_slashes:
  "CHR ''/'' \<notin> set f \<Longrightarrow> walk_path x (split_slash (replicate k CHR ''/'' @ f)) = walk_path x [f]"
  by (induction k) (simp_all add: split_slash_single)

text \<open>A path is its parent followed by its file name.\<close>

lemma resolve_parent:
  "resolve_path s p = walk_path (resolve_path s (path_parent p)) [path_filename p]"
proof -
  let ?f = "path_filename p"
  define D where "D = rev (dropWhile (\<lambda>c. c \<noteq> CHR ''/'') (rev p))"
  have p: "p = D @ ?f"
    unfolding D_def path_filename_def by (metis rev_append rev_rev_ident takeWhile_dropWhile_id)
  have f: "CHR ''/'' \<notin> set ?f" by (rule path_filename_has_no_slash)
  define t where "t = rev (dropWhile (\<lambda>c. c = CHR ''/'') (rev D))"
  define u where "u = rev (takeWhile (\<lambda>c. c = CHR ''/'') (rev D))"
  have D: "D = t @ u" unfolding t_def u_def by (metis rev_append rev_rev_ident takeWhile_dropWhile_id)
  have "\<forall>c\<in>set u. c = CHR ''/''" unfolding u_def by (auto dest: set_takeWhileD)
  then obtain k where u: "u = replicate k CHR ''/''" by (metis replicate_length_same)
  have parent: "path_parent p = (if t = [] \<and> D \<noteq> [] then ''/'' else t)"
    unfolding path_parent_def Let_def D_def[symmetric] t_def[symmetric] ..
  have last: "D = [] \<or> last D = CHR ''/''"
    unfolding D_def by (cases "dropWhile (\<lambda>c. c \<noteq> CHR ''/'') (rev p)")
      (auto simp: last_rev dest: hd_dropWhile[where P = "\<lambda>c. c \<noteq> CHR ''/''", simplified]
        dropWhile_eq_Cons_conv[THEN iffD1])
  show ?thesis
  proof (cases "D = []")
    case True
    with p parent D f have "path_parent p = []" "p = ?f" by auto
    with f show ?thesis
      by (cases "?f") (auto simp: resolve_path_def path_is_absolute_def split_slash_single)
  next
    case False
    have k: "k \<noteq> 0"
    proof
      assume "k = 0"
      with u D have "D = t" by simp
      moreover have "t = [] \<or> last t \<noteq> CHR ''/''"
        using hd_dropWhile[of "\<lambda>c. c = CHR ''/''" "rev D"]
        unfolding t_def last_rev by (metis rev_is_Nil_conv)
      ultimately show False using False last by auto
    qed
    then obtain j where j: "k = Suc j" by (cases k) auto
    have p': "p = t @ CHR ''/'' # (replicate j CHR ''/'' @ ?f)" using p D u j by simp
    show ?thesis
    proof (cases "t = []")
      case True
      have abs: "path_is_absolute p" by (subst p') (simp add: True path_is_absolute_def)
      have "p = replicate k CHR ''/'' @ ?f" using p' True j by simp
      then have "resolve_path s p = walk_path [] (split_slash (replicate k CHR ''/'' @ ?f))"
        using abs by (simp add: resolve_path_def)
      with walk_slashes[OF f] parent True False show ?thesis
        by (simp add: resolve_path_def path_is_absolute_def)
    next
      case t: False
      have "resolve_path s p = walk_path (resolve_path s t) (split_slash (replicate j CHR ''/'' @ ?f))"
        using resolve_join[OF t] p' by metis
      with walk_slashes[OF f] parent t show ?thesis by simp
    qed
  qed
qed

section \<open>Facts on files\<close>

lemma resolve_put [simp]: "resolve_path (put_node q n s) p = resolve_path s p"
  by (simp add: resolve_path_def put_node_def)

lemma node_at_put [simp]:
  "node_at (put_node q n s) r = (if r = q \<and> q \<noteq> [] then Some n else node_at s r)"
  by (simp add: node_at_def put_node_def)

lemma refuses_put [simp]: "os_refuses (put_node q n s) = os_refuses s"
  by (simp add: put_node_def)

lemma fds_put [simp]: "os_fds (put_node q n s) = os_fds s" "os_cwd (put_node q n s) = os_cwd s"
  by (simp_all add: put_node_def)

lemma os_nodes_put [simp]: "os_nodes (put_node q n s) = (os_nodes s)(q \<mapsto> n)"
  by (simp add: put_node_def)

text \<open>What an operation leaves alone: the working directory and the refusals.\<close>

definition same_place :: "'x os_scheme \<Rightarrow> 'x os_scheme \<Rightarrow> bool" where
  "same_place s s' \<longleftrightarrow> os_cwd s' = os_cwd s \<and> os_refuses s' = os_refuses s"

lemma same_place_refl [simp, intro]: "same_place s s"
  by (simp add: same_place_def)

lemma same_place_trans: "same_place s1 s2 \<Longrightarrow> same_place s2 s3 \<Longrightarrow> same_place s1 s3"
  by (simp add: same_place_def)

lemma same_place_put [simp]: "same_place s (put_node q n s') \<longleftrightarrow> same_place s s'"
  by (simp add: same_place_def)

lemma same_place_resolve: "same_place s s' \<Longrightarrow> resolve_path s' p = resolve_path s p"
  by (simp add: same_place_def resolve_path_def)

lemma make_dirs_Cons_cases:
  assumes "make_dirs q (c # cs) s = (r, s')"
  obtains (enter) "node_at s (q @ [c]) = Some Directory" "make_dirs (q @ [c]) cs s = (r, s')"
    | (fail) "r = Inl Filesystem_error" "s' = s"
    | (create) "node_at s (q @ [c]) = None" "os_refuses s (q @ [c]) = 0"
        "make_dirs (q @ [c]) cs (put_node (q @ [c]) Directory s) = (r, s')"
proof (cases "node_at s (q @ [c])")
  case None
  with assms create fail show ?thesis
    by (cases "os_refuses s (q @ [c]) = 0") (simp_all add: Let_def)
next
  case (Some n)
  with assms enter fail show ?thesis by (cases n) (simp_all add: Let_def)
qed

lemma make_dirs_same_place: "make_dirs q cs s = (r, s') \<Longrightarrow> same_place s s'"
proof (induction cs arbitrary: q s)
  case (Cons c cs)
  from Cons.prems show ?case
  proof (cases rule: make_dirs_Cons_cases)
    case create
    from Cons.IH[OF create(3)] show ?thesis by (simp add: same_place_def)
  qed (use Cons.IH in auto)
qed simp

text \<open>It only adds directories, and on success the whole path is one.\<close>

lemma make_dirs_nodes:
  "make_dirs q cs s = (r, s') \<Longrightarrow>
   node_at s' p = node_at s p \<or>
     node_at s p = None \<and> node_at s' p = Some Directory \<and> prefix p (q @ cs)"
proof (induction cs arbitrary: q s)
  case (Cons c cs)
  from Cons.prems show ?case
  proof (cases rule: make_dirs_Cons_cases)
    case create
    from Cons.IH[OF create(3)] create(1) show ?thesis by (auto split: if_splits)
  qed (use Cons.IH in fastforce)+
qed simp

lemma make_dirs_files:
  "make_dirs q cs s = (r, s') \<Longrightarrow> node_at s p = Some n \<Longrightarrow> node_at s' p = Some n"
  using make_dirs_nodes[of q cs s r s' p] by auto

lemma make_dirs_done:
  "make_dirs q cs s = (Inr (), s') \<Longrightarrow> node_at s q = Some Directory \<Longrightarrow>
   node_at s' (q @ cs) = Some Directory"
proof (induction cs arbitrary: q s)
  case (Cons c cs)
  from Cons.prems(1) show ?case
  proof (cases rule: make_dirs_Cons_cases)
    case enter
    from Cons.IH[OF enter(2,1)] show ?thesis by simp
  next
    case create
    from Cons.IH[OF create(3)] show ?thesis by simp
  qed simp
qed simp

lemma make_dirs_succeeds:
  "(\<And>p. prefix p (q @ cs) \<Longrightarrow> node_at s p \<in> {None, Some Directory} \<and> os_refuses s p = 0) \<Longrightarrow>
   fst (make_dirs q cs s) = Inr ()"
proof (induction cs arbitrary: q s)
  case (Cons c cs)
  have "prefix (q @ [c]) (q @ c # cs)" by simp
  note now = Cons.prems[OF this]
  show ?case
  proof (cases "node_at s (q @ [c])")
    case None
    have "fst (make_dirs (q @ [c]) cs (put_node (q @ [c]) Directory s)) = Inr ()"
      by (rule Cons.IH) (use Cons.prems in auto)
    with None now show ?thesis by (simp add: Let_def)
  next
    case (Some n)
    have "fst (make_dirs (q @ [c]) cs s) = Inr ()"
      by (rule Cons.IH) (use Cons.prems in auto)
    with now Some show ?thesis by (simp add: Let_def)
  qed
qed simp

lemma create_directories_same_place: "create_directories p s = (r, s') \<Longrightarrow> same_place s s'"
  by (auto simp: create_directories_def make_dirs_same_place split: if_splits)

lemma create_directories_done:
  "create_directories p s = (Inr (), s') \<Longrightarrow> node_at s' (resolve_path s p) = Some Directory"
  using make_dirs_done[of "[]" "resolve_path s p" s s']
  by (auto simp: create_directories_def node_at_def split: if_splits)

lemma create_directories_files:
  "create_directories p s = (r, s') \<Longrightarrow> node_at s q = Some n \<Longrightarrow> node_at s' q = Some n"
  by (auto simp: create_directories_def make_dirs_files split: if_splits)

lemma create_directories_nodes:
  "create_directories p s = (r, s') \<Longrightarrow>
   node_at s' q = node_at s q \<or>
     node_at s q = None \<and> node_at s' q = Some Directory \<and> prefix q (resolve_path s p)"
  using make_dirs_nodes[of "[]" "resolve_path s p" s r s' q]
  by (auto simp: create_directories_def split: if_splits)

lemma open_create_Inr:
  assumes "open_create p s = (Inr q, s')"
  shows "q = resolve_path s p" "q \<noteq> []" "p \<noteq> []" "os_refuses s q = 0" "same_place s s'"
    "node_at s' r = (if r = q then Some (Regular
       (case node_at s q of Some (Regular c) \<Rightarrow> c | _ \<Rightarrow> [])) else node_at s r)"
  using assms
  by (auto simp: open_create_def node_at_def Let_def split: if_splits option.splits node.splits)

lemma open_create_Inl: "open_create p s = (Inl e, s') \<Longrightarrow> s' = s"
  by (auto simp: open_create_def Let_def split: if_splits option.splits node.splits)

lemma ofstream_open_True:
  assumes "ofstream_open p s = (True, s')"
  shows "resolve_path s p \<noteq> []" "p \<noteq> []" "same_place s s'"
    "node_at s' r = (if r = resolve_path s p then Some (Regular []) else node_at s r)"
proof -
  from assms obtain q s1 where o: "open_create p s = (Inr q, s1)" and s': "s' = put_node q (Regular []) s1"
    by (auto simp: ofstream_open_def split: prod.splits sum.splits)
  note facts = open_create_Inr[OF o]
  show "resolve_path s p \<noteq> []" "p \<noteq> []" "same_place s s'" using facts s' by auto
  show "node_at s' r = (if r = resolve_path s p then Some (Regular []) else node_at s r)"
    using facts(1,2) facts(6)[of r] s' by auto
qed

lemma ofstream_open_False: "ofstream_open p s = (False, s') \<Longrightarrow> s' = s"
  by (auto simp: ofstream_open_def dest: open_create_Inl split: prod.splits sum.splits)

lemma node_at_fds [simp]:
  "node_at (s\<lparr>os_fds := x\<rparr>) q = node_at s q" "node_at (close_fd fd s) q = node_at s q"
  "same_place s' (s\<lparr>os_fds := x\<rparr>) \<longleftrightarrow> same_place s' s"
  "same_place s' (close_fd fd s) \<longleftrightarrow> same_place s' s"
  by (simp_all add: node_at_def close_fd_def same_place_def)

text \<open>Opening a device for writing after the stream has created and truncated the file.\<close>

lemma Open_for_writing:
  assumes "ofstream_open p s = (b, s1)"
    and "FILEDevice_Open assign (FILEDevice p 1) s1 = (ec, dev, s2)"
  shows "same_place s s2"
    "r \<noteq> resolve_path s p \<Longrightarrow> node_at s2 r = node_at s r"
    "\<not> ec_failed ec \<Longrightarrow> b \<and> fd_path dev = resolve_path s p \<and> p \<noteq> [] \<and>
       os_refuses s (resolve_path s p) = 0 \<and> node_at s2 (resolve_path s p) = Some (Regular [])"
proof -
  have dev: "fd_name (FILEDevice p 1) = p" "fd_flags (FILEDevice p 1) = O_WRONLY_CREAT"
    by (simp_all add: FILEDevice_def)
  have refuse: "open_create p s = (Inl e, t) \<Longrightarrow> ec_failed \<lparr>ec_value = e, ec_category = System_category\<rparr>"
    for e t by (auto simp: open_create_def ec_failed_def errno_ENOENT_def errno_EISDIR_def Let_def
        split: if_splits option.splits node.splits)
  have "same_place s s2 \<and> (r \<noteq> resolve_path s p \<longrightarrow> node_at s2 r = node_at s r) \<and>
    (\<not> ec_failed ec \<longrightarrow> b \<and> fd_path dev = resolve_path s p \<and> p \<noteq> [] \<and>
       os_refuses s (resolve_path s p) = 0 \<and> node_at s2 (resolve_path s p) = Some (Regular []))"
  proof (cases b)
    case False
    then obtain e t where e: "open_create p s = (Inl e, t)"
      using assms(1) by (auto simp: ofstream_open_def split: prod.splits sum.splits)
    from False assms(1) have s1: "s1 = s" by (auto dest: ofstream_open_False)
    from e have t: "t = s" by (rule open_create_Inl)
    from assms(2) e t s1 refuse[OF e] show ?thesis
      by (auto simp: FILEDevice_Open_def posix_open_def dev)
  next
    case True
    have "ofstream_open p s = (True, s1)" using assms(1) True by simp
    note o = ofstream_open_True[OF this]
    from True assms(1) obtain q t where q: "open_create p s = (Inr q, t)"
      by (auto simp: ofstream_open_def split: prod.splits sum.splits)
    have ref: "os_refuses s (resolve_path s p) = 0" using open_create_Inr[OF q] by simp
    have res: "resolve_path s1 p = resolve_path s p" by (rule same_place_resolve[OF o(3)])
    have "os_refuses s1 = os_refuses s" using o(3) by (simp add: same_place_def)
    then have "open_create p s1 = (Inr (resolve_path s p), s1)"
      using o(2) o(4)[of "resolve_path s p"] ref by (simp add: open_create_def res Let_def)
    with assms(2) o ref True show ?thesis
      by (auto simp: FILEDevice_Open_def posix_open_def dev Let_def split: if_splits)
  qed
  then show "same_place s s2" "r \<noteq> resolve_path s p \<Longrightarrow> node_at s2 r = node_at s r"
    "\<not> ec_failed ec \<Longrightarrow> b \<and> fd_path dev = resolve_path s p \<and> p \<noteq> [] \<and>
       os_refuses s (resolve_path s p) = 0 \<and> node_at s2 (resolve_path s p) = Some (Regular [])"
    by blast+
qed

lemma node_at_write [simp]:
  "node_at (write_at_start q bs s) r =
     (if r = q then (case node_at s q of
        Some (Regular old) \<Rightarrow> Some (Regular (bs @ drop (length bs) old)) | x \<Rightarrow> x)
      else node_at s r)"
  by (auto simp: write_at_start_def node_at_def split: option.splits node.splits)

lemma same_place_write [simp]: "same_place s (write_at_start q bs s') \<longleftrightarrow> same_place s s'"
  by (auto simp: write_at_start_def split: option.splits node.splits)

section \<open>The destructor of FILEDevice\<close>

lemma destroy_view [simp]:
  "same_place s (destroy_FILEDevice dev s') \<longleftrightarrow> same_place s s'"
  "node_at (destroy_FILEDevice dev s) q = node_at s q"
  by (simp_all add: destroy_FILEDevice_def destroy_close_number_def destroy_close_stream_def
      close_fd_def same_place_def node_at_def)

lemma close_fd_idem: "close_fd fd (close_fd fd s) = close_fd fd s"
  by (simp add: close_fd_def)

lemma free_fd_not_open: "free_fd fds \<notin> set fds"
proof -
  have "\<not> set [0..<Suc (length fds)] \<subseteq> set fds"
  proof
    assume "set [0..<Suc (length fds)] \<subseteq> set fds"
    then have "card (set [0..<Suc (length fds)]) \<le> card (set fds)"
      by (rule card_mono[rotated]) simp
    also have "\<dots> \<le> length fds" by (rule card_length)
    finally show False by simp
  qed
  then have ne: "filter (\<lambda>n. n \<notin> set fds) [0..<Suc (length fds)] \<noteq> []"
    by (auto simp: filter_empty_conv simp del: upt_Suc)
  show ?thesis using hd_in_set[OF ne] by (simp add: free_fd_def del: upt_Suc)
qed

lemma free_fd_lowest:
  assumes "n \<notin> set fds" and "\<forall>k<n. k \<in> set fds"
  shows "free_fd fds = n"
proof -
  have "card {..<n} \<le> card (set fds)" using assms(2) by (intro card_mono) auto
  then have "n \<le> length fds" using card_length[of fds] by simp
  then have split: "[0..<Suc (length fds)] = [0..<n] @ n # [Suc n..<Suc (length fds)]"
    by (metis le_SucI le_imp_less_Suc upt_add_eq_append upt_conv_Cons zero_le le_add_diff_inverse
        add_0)
  have "filter (\<lambda>k. k \<notin> set fds) [0..<n] = []" using assms(2) by (simp add: filter_empty_conv)
  with assms(1) show ?thesis unfolding free_fd_def split by simp
qed

lemma free_fd_filter:
  "n \<in> set fds \<Longrightarrow> \<forall>k<n. k \<in> set fds \<Longrightarrow> free_fd (filter (\<lambda>k. k \<noteq> n) fds) = n"
  by (rule free_fd_lowest) auto

lemma posix_open_fd:
  "posix_open p flags s = (Inr (fd, q), s') \<Longrightarrow> os_fds s' = fd # os_fds s \<and> fd = free_fd (os_fds s)"
  by (auto simp: posix_open_def open_create_def Let_def split: open_flags.splits sum.splits prod.splits
      if_splits option.splits node.splits)

text \<open>
  The destructor of \<open>FILEDevice\<close> closes its descriptor twice. Alone this closes exactly
  the device's own descriptor; but when another thread opens a file between the two
  statements it is given the number just freed if that is the lowest free one, and the
  second \<open>close\<close> then closes the other thread's file.
\<close>

theorem FILEDevice_destructor_closes_twice:
  assumes "fd_fd dev = int n" and "n \<in> set (os_fds s)" and "\<forall>k<n. k \<in> set (os_fds s)"
    and "posix_open p flags (destroy_close_stream dev s) = (Inr (fd, q), s1)"
  shows "set (os_fds (destroy_FILEDevice dev s)) = set (os_fds s) - {n} \<and>
    fd = n \<and> fd \<in> set (os_fds s1) \<and> fd \<notin> set (os_fds (destroy_close_number dev s1))"
  using assms posix_open_fd[OF assms(4)]
  by (auto simp: destroy_FILEDevice_def destroy_close_stream_def destroy_close_number_def
      close_fd_def free_fd_filter)

definition empty_os :: os where
  "empty_os = \<lparr>os_nodes = Map.empty, os_cwd = [''home''], os_refuses = (\<lambda>_. 0), os_fds = [2, 1, 0]\<rparr>"

lemmas os_eval = create_directories_def ofstream_open_def open_create_def open_read_def
  FILEDevice_Open_def FILEDevice_def posix_open_def path_parent_def path_filename_def
  resolve_path_def path_is_absolute_def node_at_def put_node_def empty_os_def

lemma FILEDevice_destructor_closes_twice_witness:
  "3 \<notin> set (os_fds (destroy_close_number (FILEDevice ''a'' 0\<lparr>fd_fd := 3\<rparr>)
     (snd (posix_open ''/b'' O_WRONLY_CREAT
        (destroy_close_stream (FILEDevice ''a'' 0\<lparr>fd_fd := 3\<rparr>) (empty_os\<lparr>os_fds := [3, 2, 1, 0]\<rparr>))))))"
proof -
  let ?dev = "FILEDevice ''a'' 0\<lparr>fd_fd := 3\<rparr>"
  let ?s = "empty_os\<lparr>os_fds := [3, 2, 1, 0]\<rparr>"
  obtain fd q s1 where o: "posix_open ''/b'' O_WRONLY_CREAT (destroy_close_stream ?dev ?s) = (Inr (fd, q), s1)"
    by (simp add: posix_open_def open_create_def empty_os_def destroy_close_stream_def
        close_fd_def Let_def node_at_def resolve_path_def path_is_absolute_def path_filename_def)
  have "\<forall>k<3. k \<in> set [3, 2, 1, 0::nat]" by auto
  with FILEDevice_destructor_closes_twice[OF _ _ _ o, of 3] show ?thesis
    by (auto simp: o[simplified])
qed

end
