(* ===== verification/MnnFiles.thy ===== *)
theory MnnFiles
  imports OperatingSystem
begin

text \<open>
  The handlers of the prefixes "file" and "mnn": \<open>src/MNNLoader.cpp\<close> and
  \<open>src/MNNSaver.cpp\<close>. A load is one asynchronous read up to the end of the file; a save
  opens every file, starts one asynchronous write each and calls back when the shared
  counter of writes has come down to zero.
\<close>

section \<open>MNNLoader\<close>

datatype mnn_loader_error = MNN_READ_ERROR | MNN_FILE_OPEN_FAIL

fun mnn_loader_error_message :: "mnn_loader_error \<Rightarrow> string" where
  "mnn_loader_error_message MNN_READ_ERROR = ''File could not be read''"
| "mnn_loader_error_message MNN_FILE_OPEN_FAIL = ''File could not be opened''"

text \<open>
  Reading a directory through \<open>std::ifstream\<close> opens it and fails on the first read,
  with \<open>std::ios_base::failure\<close>.
\<close>

definition MNNLoader_LoadFile :: "string \<Rightarrow> 'x os_scheme \<Rightarrow> exn + bytes option" where
  "MNNLoader_LoadFile filename s =
     (if \<not> path_exists s filename then Inl (Range_error ''File was not exist in system'')
      else case open_read s filename of
             Inl _ \<Rightarrow> Inl (Range_error ''Can not open file'')
           | Inr Directory \<Rightarrow> Inl System_error
           | Inr (Regular dataContent) \<Rightarrow> Inr (Some dataContent))"

record mnn_load =
  ml_filename :: string
  ml_parse :: bool
  ml_save :: bool
  ml_device :: file_device
  ml_reading :: bool

definition MNNLoader_LoadASync ::
  "(nat \<Rightarrow> error_code) \<Rightarrow> string \<Rightarrow> bool \<Rightarrow> bool \<Rightarrow> 'x os_scheme \<Rightarrow>
   string \<times> mnn_load \<times> (mnn_loader_error, unit) act list \<times> 'x os_scheme" where
  "MNNLoader_LoadASync assign filename parse save s =
     (let (tryopen, dev, s1) = FILEDevice_Open assign (FILEDevice filename 0) s;
          ml = \<lparr>ml_filename = filename, ml_parse = parse, ml_save = save, ml_device = dev,
                ml_reading = \<not> ec_failed tryopen\<rparr>
      in if ec_failed tryopen
         then (''init'', ml, [Post_read (Inl MNN_FILE_OPEN_FAIL) False False], s1)
         else (''init'', ml, [], s1))"

text \<open>
  The handler of \<open>async_read\<close> with \<open>transfer_all\<close>. Its test \<open>error.value() == 2\<close> does
  not look at the category.
\<close>

definition mnn_on_read :: "error_code \<Rightarrow> bytes \<Rightarrow> mnn_load \<Rightarrow>
   mnn_load \<times> (mnn_loader_error, unit) act list" where
  "mnn_on_read error buffer ml =
     (if ec_value error = 2
      then (ml\<lparr>ml_reading := False\<rparr>,
            [Handle_read (Inr (Some ([path_filename (ml_filename ml)], [buffer])))
               (ml_parse ml) (ml_save ml)])
      else (ml\<lparr>ml_reading := False\<rparr>, [Handle_read (Inl MNN_READ_ERROR) False False]))"

datatype mnn_read_event = Mnn_read_done error_code bytes

fun mnn_load_step :: "mnn_load \<Rightarrow> mnn_read_event \<Rightarrow>
   mnn_load \<times> (mnn_loader_error, unit) act list" where
  "mnn_load_step ml (Mnn_read_done ec data) =
     (if ml_reading ml then mnn_on_read ec data ml else (ml, []))"

interpretation mnn_read: one_shot mnn_load_step "\<lambda>_. True" ml_reading
proof unfold_locales
  fix s e s' and as :: "(mnn_loader_error, unit) act list"
  show True by simp
  show "ml_reading s \<Longrightarrow> mnn_load_step s e = (s', as) \<Longrightarrow> completions as = (if ml_reading s' then 0 else 1)"
    by (cases e) (auto simp: mnn_on_read_def split: if_splits)
  show "\<not> ml_reading s \<Longrightarrow> mnn_load_step s e = (s', as) \<Longrightarrow> \<not> ml_reading s' \<and> completions as = 0"
    by (cases e) auto
qed

section \<open>MNNSaver\<close>

datatype mnn_saver_error = MNNS_READ_ERROR | MNNS_FILE_OPEN_FAIL

fun mnn_saver_error_message :: "mnn_saver_error \<Rightarrow> string" where
  "mnn_saver_error_message MNNS_READ_ERROR = ''File could not be read''"
| "mnn_saver_error_message MNNS_FILE_OPEN_FAIL = ''File could not be opened''"

definition MNNSaver_SaveFile :: "string \<Rightarrow> bytes option \<Rightarrow> 'x os_scheme \<Rightarrow>
   (exn + unit) \<times> 'x os_scheme" where
  "MNNSaver_SaveFile filename data s =
     (case data of
        None \<Rightarrow> (Inl (Range_error ''Can not save with null data''), s)
      | Some fileContent \<Rightarrow>
          (case ofstream_open filename s of
             (False, s1) \<Rightarrow> (Inl (Range_error ''Can not create file for save''), s1)
           | (True, s1) \<Rightarrow> (Inr (), write_at_start (resolve_path s1 filename) fileContent s1)))"

text \<open>
  A save in progress: the file system, the value of \<open>*remainingWrites\<close>, the writes whose
  handlers have not run yet (the path of the open descriptor and the buffer), and in the
  same order the \<open>FILEDevice\<close>s that their lambdas own. The descriptor that the
  \<open>std::ofstream\<close> of a round holds until the round ends is not in the table.
\<close>

record 'x mnn_save =
  ms_os :: "'x os_scheme"
  ms_remaining :: nat
  ms_writes :: "(string list \<times> bytes) list"
  ms_devices :: "file_device list"

datatype mnn_io = Set_location string

type_synonym mnn_act = "(mnn_saver_error, mnn_io) act"

text \<open>
  One round of the loop over the names; \<open>contents\<close> is the vector of the contents from
  index \<open>i\<close> on. Its element is read only after the file has been opened.
\<close>

definition mnn_save_file ::
  "(nat \<Rightarrow> error_code) \<Rightarrow> string \<Rightarrow> bytes list \<Rightarrow> 'x mnn_save \<Rightarrow>
   (exn + bool) \<times> 'x mnn_save \<times> mnn_act list" where
  "mnn_save_file assign directoryWithFile contents ms =
     (case create_directories (path_parent directoryWithFile) (ms_os ms) of
        (Inl e, s1) \<Rightarrow> (Inl e, ms\<lparr>ms_os := s1\<rparr>, [])
      | (Inr _, s1) \<Rightarrow>
          let (_, s2) = ofstream_open directoryWithFile s1;
              (tryopen, dev, s3) = FILEDevice_Open assign (FILEDevice directoryWithFile 1) s2;
              ms1 = ms\<lparr>ms_os := s3\<rparr>
          in if ec_failed tryopen then (Inr False, ms1, [Post_write])
             else case contents of
                    [] \<Rightarrow> (Inl Undefined_behaviour, ms1, [])
                  | c # _ \<Rightarrow>
                      (Inr True, ms1\<lparr>ms_writes := ms_writes ms1 @ [(fd_path dev, c)],
                                   ms_devices := ms_devices ms1 @ [dev]\<rparr>, []))"

fun mnn_save_loop ::
  "(nat \<Rightarrow> error_code) \<Rightarrow> string \<Rightarrow> string list \<Rightarrow> bytes list \<Rightarrow> 'x mnn_save \<Rightarrow>
   (exn + unit) \<times> 'x mnn_save \<times> mnn_act list" where
  "mnn_save_loop assign filename [] contents ms = (Inr (), ms, [])"
| "mnn_save_loop assign filename (n # names) contents ms =
     (case mnn_save_file assign (filename @ n) contents ms of
        (Inl e, ms1, as) \<Rightarrow> (Inl e, ms1, as)
      | (Inr False, ms1, as) \<Rightarrow> (Inr (), ms1, as)
      | (Inr True, ms1, as) \<Rightarrow>
          (let (r, ms2, bs) = mnn_save_loop assign filename names (drop 1 contents) ms1
           in (r, ms2, as @ bs)))"

text \<open>
  \<open>data.value()\<close> throws on a failure; the null test reads \<open>second.data()\<close>, which is null
  for the empty vector of contents. \<open>uuid\<close> is the random name made for an empty file name.
\<close>

definition MNNSaver_SaveASync ::
  "(nat \<Rightarrow> error_code) \<Rightarrow> string \<Rightarrow> string \<Rightarrow> 'e result_type \<Rightarrow> string \<Rightarrow> bool \<Rightarrow> 'x os_scheme \<Rightarrow>
   (exn + unit) \<times> 'x mnn_save \<times> mnn_act list" where
  "MNNSaver_SaveASync assign uuid filename data sfx save_location s =
     (case data of
        Inl _ \<Rightarrow> (Inl System_error, \<lparr>ms_os = s, ms_remaining = 0, ms_writes = [], ms_devices = []\<rparr>, [])
      | Inr None \<Rightarrow> (Inl Undefined_behaviour, \<lparr>ms_os = s, ms_remaining = 0, ms_writes = [], ms_devices = []\<rparr>, [])
      | Inr (Some (names, contents)) \<Rightarrow>
          if contents = []
          then (Inl (Range_error ''Can not save with null data''),
                \<lparr>ms_os = s, ms_remaining = 0, ms_writes = [], ms_devices = []\<rparr>, [])
          else let name = (if filename = [] then uuid @ ''/'' else filename);
                   (r, ms, as) = mnn_save_loop assign name names contents
                     \<lparr>ms_os = s, ms_remaining = length names, ms_writes = [], ms_devices = []\<rparr>
               in (r, ms, (if save_location then [Io (Set_location (''file://'' @ name))] else []) @ as))"

text \<open>
  The write of index \<open>k\<close> among the pending ones finishes after \<open>n\<close> bytes, whatever its
  error code, and its handler runs; with the handler goes its \<open>FILEDevice\<close>.
\<close>

datatype mnn_write_event = Mnn_write_done nat nat

fun mnn_save_step :: "'x mnn_save \<Rightarrow> mnn_write_event \<Rightarrow> 'x mnn_save \<times> mnn_act list" where
  "mnn_save_step ms (Mnn_write_done k n) =
     (if k < length (ms_writes ms) then
        let (q, bs) = ms_writes ms ! k;
            ms1 = ms\<lparr>ms_os := destroy_FILEDevice (ms_devices ms ! k) (write_at_start q (take n bs) (ms_os ms)),
                     ms_writes := take k (ms_writes ms) @ drop (Suc k) (ms_writes ms),
                     ms_devices := take k (ms_devices ms) @ drop (Suc k) (ms_devices ms),
                     ms_remaining := ms_remaining ms - 1\<rparr>
        in (ms1, if ms_remaining ms1 \<le> 0 then [Handle_write] else [])
      else (ms, []))"

section \<open>One completion per save\<close>

definition mnn_save_wf :: "'x mnn_save \<Rightarrow> bool" where
  "mnn_save_wf ms \<longleftrightarrow> length (ms_writes ms) \<le> ms_remaining ms"

definition mnn_save_live :: "'x mnn_save \<Rightarrow> bool" where
  "mnn_save_live ms \<longleftrightarrow> ms_writes ms \<noteq> [] \<and> length (ms_writes ms) = ms_remaining ms"

interpretation mnn_write: one_shot mnn_save_step mnn_save_wf mnn_save_live
proof unfold_locales
  fix s e s' and as :: "mnn_act list"
  show "mnn_save_wf s \<Longrightarrow> mnn_save_step s e = (s', as) \<Longrightarrow> mnn_save_wf s'"
    by (cases e) (auto simp: mnn_save_wf_def Let_def split: if_splits prod.splits)
  show "mnn_save_wf s \<Longrightarrow> mnn_save_live s \<Longrightarrow> mnn_save_step s e = (s', as) \<Longrightarrow>
      completions as = (if mnn_save_live s' then 0 else 1)"
    by (cases e) (auto simp: mnn_save_live_def Let_def split: if_splits prod.splits)
  show "mnn_save_wf s \<Longrightarrow> \<not> mnn_save_live s \<Longrightarrow> mnn_save_step s e = (s', as) \<Longrightarrow>
      \<not> mnn_save_live s' \<and> completions as = 0"
    by (cases e) (auto simp: mnn_save_wf_def mnn_save_live_def Let_def split: if_splits prod.splits)
qed

text \<open>What one round of the loop does, whatever the file system answers.\<close>

lemma mnn_save_file_cases:
  assumes "mnn_save_file assign p contents ms = (r, ms1, as)"
  shows "ms_remaining ms1 = ms_remaining ms"
    "r = Inr True \<Longrightarrow> as = [] \<and> contents \<noteq> [] \<and>
       ms_writes ms1 = ms_writes ms @ [(resolve_path (ms_os ms) p, hd contents)]"
    "r \<noteq> Inr True \<Longrightarrow> ms_writes ms1 = ms_writes ms"
    "r = Inr False \<Longrightarrow> as = [Post_write]"
    "r = Inl e \<Longrightarrow> as = []"
proof -
  obtain rc s1 where cd: "create_directories (path_parent p) (ms_os ms) = (rc, s1)" by force
  have res: "resolve_path s1 p = resolve_path (ms_os ms) p"
    using create_directories_same_place[OF cd] by (rule same_place_resolve)
  obtain b s2 where os: "ofstream_open p s1 = (b, s2)" by force
  obtain ec dev s3 where fo: "FILEDevice_Open assign (FILEDevice p 1) s2 = (ec, dev, s3)"
    by (metis prod_cases3)
  note [simp] = cd os fo
  have "ms_remaining ms1 = ms_remaining ms \<and> (r = Inr True \<longrightarrow> as = [] \<and> contents \<noteq> [] \<and>
       ms_writes ms1 = ms_writes ms @ [(resolve_path (ms_os ms) p, hd contents)]) \<and>
      (r \<noteq> Inr True \<longrightarrow> ms_writes ms1 = ms_writes ms) \<and> (r = Inr False \<longrightarrow> as = [Post_write]) \<and>
      (r = Inl e \<longrightarrow> as = [])"
    using assms Open_for_writing(3)[OF os fo] res
    by (auto simp: mnn_save_file_def Let_def split: sum.splits if_splits list.splits)
  then show "ms_remaining ms1 = ms_remaining ms"
    "r = Inr True \<Longrightarrow> as = [] \<and> contents \<noteq> [] \<and>
       ms_writes ms1 = ms_writes ms @ [(resolve_path (ms_os ms) p, hd contents)]"
    "r \<noteq> Inr True \<Longrightarrow> ms_writes ms1 = ms_writes ms"
    "r = Inr False \<Longrightarrow> as = [Post_write]"
    "r = Inl e \<Longrightarrow> as = []"
    by blast+
qed

lemma mnn_save_loop_Cons_cases:
  assumes "mnn_save_loop assign d (n # names) contents ms = (r, ms', as)"
  obtains (fail) e where "mnn_save_file assign (d @ n) contents ms = (Inl e, ms', as)" "r = Inl e"
    | (stop) "mnn_save_file assign (d @ n) contents ms = (Inr False, ms', as)" "r = Inr ()"
    | (go) ms1 where "mnn_save_file assign (d @ n) contents ms = (Inr True, ms1, [])"
        "mnn_save_loop assign d names (drop 1 contents) ms1 = (r, ms', as)"
proof -
  obtain r1 ms1 as1 where f: "mnn_save_file assign (d @ n) contents ms = (r1, ms1, as1)"
    by (metis prod_cases3)
  obtain r2 ms2 as2 where l: "mnn_save_loop assign d names (drop 1 contents) ms1 = (r2, ms2, as2)"
    by (metis prod_cases3)
  show ?thesis
  proof (cases r1)
    case (Inl e)
    with assms f fail show ?thesis by simp
  next
    case (Inr b)
    show ?thesis
    proof (cases b)
      case True
      then have "as1 = []" using mnn_save_file_cases(2)[OF f] Inr by simp
      with assms f l go Inr True show ?thesis by simp
    next
      case False
      with assms f stop Inr show ?thesis by simp
    qed
  qed
qed

lemma mnn_save_loop_count:
  assumes "mnn_save_loop assign d names contents ms = (Inr (), ms', as)"
    and "length (ms_writes ms) + length names = ms_remaining ms"
  shows "mnn_save_wf ms'" "ms_remaining ms' = ms_remaining ms"
    "completions as = (if length (ms_writes ms') = ms_remaining ms' then 0 else 1)"
  using assms
proof (induction names arbitrary: contents ms)
  case (Cons n names)
  {
    case 1
    from 1(1) show ?case
    proof (cases rule: mnn_save_loop_Cons_cases)
      case stop
      with 1 mnn_save_file_cases(1,3)[OF stop(1)] show ?thesis by (simp add: mnn_save_wf_def)
    next
      case (go ms1)
      with 1 mnn_save_file_cases(1,2)[OF go(1)] Cons.IH(1) show ?thesis by simp
    qed simp
  next
    case 2
    from 2(1) show ?case
    proof (cases rule: mnn_save_loop_Cons_cases)
      case stop
      with mnn_save_file_cases(1)[OF stop(1)] show ?thesis by simp
    next
      case (go ms1)
      with 2 mnn_save_file_cases(1,2)[OF go(1)] Cons.IH(2)[OF go(2)] show ?thesis by simp
    qed simp
  next
    case 3
    from 3(1) show ?case
    proof (cases rule: mnn_save_loop_Cons_cases)
      case stop
      with 3 mnn_save_file_cases(1,3,4)[OF stop(1)] show ?thesis by simp
    next
      case (go ms1)
      with 3 mnn_save_file_cases(1,2)[OF go(1)] Cons.IH(3)[OF go(2)] show ?thesis by simp
    qed simp
  }
qed (simp_all add: mnn_save_wf_def)

lemma SaveASync_returns:
  assumes "MNNSaver_SaveASync assign uuid filename (Inr (Some (names, contents))) sfx loc s = (Inr (), ms, as)"
  obtains bs where "mnn_save_loop assign (if filename = [] then uuid @ ''/'' else filename) names contents
      \<lparr>ms_os = s, ms_remaining = length names, ms_writes = [], ms_devices = []\<rparr> = (Inr (), ms, bs)"
    "contents \<noteq> []" "completions as = completions bs" "Post_write \<in> set as \<longleftrightarrow> Post_write \<in> set bs"
  using assms
  by (force simp: MNNSaver_SaveASync_def Let_def split: if_splits prod.splits)


text \<open>A save of one file into a fresh directory.\<close>

definition sample_data :: "unit result_type" where
  "sample_data = Inr (Some ([''f''], [''hi'']))"

definition sample_save :: "unit mnn_save" where
  "sample_save = fst (snd (MNNSaver_SaveASync (\<lambda>_. ec_success) ''u'' ''/d/'' sample_data [] True empty_os))"

lemma sample_save_accepted:
  "MNNSaver_SaveASync (\<lambda>_. ec_success) ''u'' ''/d/'' (Inr (Some ([''f''], [''hi''])) :: unit result_type)
     [] True empty_os = (Inr (), sample_save, [Io (Set_location ''file:///d/'')])"
  "ms_writes sample_save = [([''d'', ''f''], ''hi'')]" "ms_remaining sample_save = 1"
  by (simp_all add: sample_save_def sample_data_def MNNSaver_SaveASync_def mnn_save_file_def os_eval Let_def)


section \<open>Where and what a save writes\<close>

text \<open>The paths of the files of a save, in order.\<close>

definition save_paths :: "'x os_scheme \<Rightarrow> string \<Rightarrow> string list \<Rightarrow> string list list" where
  "save_paths s d names = map (\<lambda>n. resolve_path s (d @ n)) names"

lemma mnn_save_file_os:
  assumes "mnn_save_file assign p contents ms = (r, ms1, as)"
  shows "same_place (ms_os ms) (ms_os ms1)"
    "q \<noteq> resolve_path (ms_os ms) p \<Longrightarrow> node_at (ms_os ms1) q = node_at (ms_os ms) q \<or>
       node_at (ms_os ms) q = None \<and> prefix q (resolve_path (ms_os ms) (path_parent p))"
    "q \<noteq> resolve_path (ms_os ms) p \<Longrightarrow> node_at (ms_os ms) q = Some n \<Longrightarrow> node_at (ms_os ms1) q = Some n"
    "r = Inr True \<Longrightarrow> node_at (ms_os ms1) (resolve_path (ms_os ms) p) = Some (Regular []) \<and>
       os_refuses (ms_os ms) (resolve_path (ms_os ms) p) = 0 \<and> p \<noteq> []"
proof -
  let ?q = "resolve_path (ms_os ms) p"
  obtain rc s1 where cd: "create_directories (path_parent p) (ms_os ms) = (rc, s1)" by force
  have sp: "same_place (ms_os ms) s1" by (rule create_directories_same_place[OF cd])
  have res: "resolve_path s1 p = ?q" by (rule same_place_resolve[OF sp])
  note made = create_directories_nodes[OF cd]
  show "same_place (ms_os ms) (ms_os ms1)"
    "q \<noteq> ?q \<Longrightarrow> node_at (ms_os ms1) q = node_at (ms_os ms) q \<or>
       node_at (ms_os ms) q = None \<and> prefix q (resolve_path (ms_os ms) (path_parent p))"
    "q \<noteq> ?q \<Longrightarrow> node_at (ms_os ms) q = Some n \<Longrightarrow> node_at (ms_os ms1) q = Some n"
    "r = Inr True \<Longrightarrow> node_at (ms_os ms1) ?q = Some (Regular []) \<and> os_refuses (ms_os ms) ?q = 0 \<and> p \<noteq> []"
  proof -
    have "same_place (ms_os ms) (ms_os ms1) \<and> (q \<noteq> ?q \<longrightarrow> node_at (ms_os ms1) q = node_at s1 q) \<and>
      (r = Inr True \<longrightarrow> node_at (ms_os ms1) ?q = Some (Regular []) \<and> os_refuses (ms_os ms) ?q = 0 \<and> p \<noteq> [])"
    proof (cases rc)
      case (Inl e)
      with assms cd sp show ?thesis by (auto simp: mnn_save_file_def)
    next
      case (Inr u)
      obtain b s2 where os: "ofstream_open p s1 = (b, s2)" by force
      obtain ec dev s3 where fo: "FILEDevice_Open assign (FILEDevice p 1) s2 = (ec, dev, s3)"
        by (metis prod_cases3)
      from assms cd os fo Inr have ms1: "ms_os ms1 = s3" and ok: "r = Inr True \<Longrightarrow> \<not> ec_failed ec"
        by (auto simp: mnn_save_file_def Let_def split: if_splits list.splits)
      note o = Open_for_writing[OF os fo, unfolded res]
      have "os_refuses s1 = os_refuses (ms_os ms)" using sp by (simp add: same_place_def)
      with o ms1 ok same_place_trans[OF sp o(1)] show ?thesis by metis
    qed
    with made[of q] show "same_place (ms_os ms) (ms_os ms1)"
      "q \<noteq> ?q \<Longrightarrow> node_at (ms_os ms1) q = node_at (ms_os ms) q \<or>
         node_at (ms_os ms) q = None \<and> prefix q (resolve_path (ms_os ms) (path_parent p))"
      "q \<noteq> ?q \<Longrightarrow> node_at (ms_os ms) q = Some n \<Longrightarrow> node_at (ms_os ms1) q = Some n"
      "r = Inr True \<Longrightarrow> node_at (ms_os ms1) ?q = Some (Regular []) \<and> os_refuses (ms_os ms) ?q = 0 \<and> p \<noteq> []"
      by auto
  qed
qed

lemma mnn_save_loop_same_place:
  "mnn_save_loop assign d names contents ms = (r, ms', as) \<Longrightarrow> same_place (ms_os ms) (ms_os ms')"
proof (induction names arbitrary: contents ms)
  case (Cons n names)
  from Cons.prems show ?case
  proof (cases rule: mnn_save_loop_Cons_cases)
    case (go ms1)
    from same_place_trans[OF mnn_save_file_os(1)[OF go(1)] Cons.IH[OF go(2)]] show ?thesis .
  qed (use mnn_save_file_os(1) in blast)+
qed simp

lemma mnn_save_loop_keeps:
  "mnn_save_loop assign d names contents ms = (r, ms', as) \<Longrightarrow>
   q \<notin> set (save_paths (ms_os ms) d names) \<Longrightarrow> node_at (ms_os ms) q = Some n \<Longrightarrow>
   node_at (ms_os ms') q = Some n"
proof (induction names arbitrary: contents ms)
  case (Cons m names)
  from Cons.prems(1) show ?case
  proof (cases rule: mnn_save_loop_Cons_cases)
    case (go ms1)
    have "save_paths (ms_os ms1) d names = save_paths (ms_os ms) d names"
      using same_place_resolve[OF mnn_save_file_os(1)[OF go(1)]] by (simp add: save_paths_def)
    with Cons.IH[OF go(2)] Cons.prems(2,3) mnn_save_file_os(3)[OF go(1)] show ?thesis
      by (simp add: save_paths_def)
  qed (use mnn_save_file_os(3) Cons.prems in \<open>auto simp: save_paths_def\<close>)
qed simp

text \<open>A loop that has opened everything: what is pending, and the fresh files it has left.\<close>

lemma mnn_save_loop_opened:
  assumes "mnn_save_loop assign d names contents ms = (Inr (), ms', as)" and "Post_write \<notin> set as"
    and "distinct (save_paths (ms_os ms) d names)"
  shows "ms_writes ms' = ms_writes ms @ zip (save_paths (ms_os ms) d names) contents \<and>
    length names \<le> length contents \<and>
    (\<forall>n\<in>set names. node_at (ms_os ms') (resolve_path (ms_os ms) (d @ n)) = Some (Regular []) \<and>
       os_refuses (ms_os ms) (resolve_path (ms_os ms) (d @ n)) = 0 \<and> d @ n \<noteq> [])"
  using assms
proof (induction names arbitrary: contents ms)
  case (Cons m names)
  from Cons.prems(1) show ?case
  proof (cases rule: mnn_save_loop_Cons_cases)
    case stop
    with Cons.prems(2) mnn_save_file_cases(4)[OF stop(1)] show ?thesis by simp
  next
    case (go ms1)
    note sp = mnn_save_file_os(1)[OF go(1)]
    have res: "resolve_path (ms_os ms1) p = resolve_path (ms_os ms) p" for p
      by (rule same_place_resolve[OF sp])
    have ref: "os_refuses (ms_os ms1) = os_refuses (ms_os ms)" using sp by (simp add: same_place_def)
    have paths: "save_paths (ms_os ms1) d names = save_paths (ms_os ms) d names"
      by (simp add: save_paths_def res)
    from Cons.prems(3) have dist: "distinct (save_paths (ms_os ms1) d names)"
      and new: "resolve_path (ms_os ms) (d @ m) \<notin> set (save_paths (ms_os ms1) d names)"
      by (auto simp: paths) (auto simp: save_paths_def)
    note ih = Cons.IH[OF go(2) Cons.prems(2) dist]
    from mnn_save_file_cases(2)[OF go(1)] obtain c cs where c: "contents = c # cs"
        "ms_writes ms1 = ms_writes ms @ [(resolve_path (ms_os ms) (d @ m), c)]"
      by (cases contents) auto
    have "node_at (ms_os ms') (resolve_path (ms_os ms) (d @ m)) = Some (Regular [])"
      using mnn_save_loop_keeps[OF go(2) new] mnn_save_file_os(4)[OF go(1)] by simp
    with ih c mnn_save_file_os(4)[OF go(1)] show ?thesis
      by (simp add: res ref paths) (simp add: save_paths_def)
  qed simp
qed (simp add: save_paths_def)

text \<open>
  The state of the files while the writes run: an entry is either pending on a fresh file
  or written.
\<close>

definition writes_inv :: "(string list \<times> bytes) list \<Rightarrow> 'x mnn_save \<Rightarrow> bool" where
  "writes_inv L ms \<longleftrightarrow> distinct (ms_writes ms) \<and> set (ms_writes ms) \<subseteq> set L \<and>
     (\<forall>(q, c)\<in>set L. node_at (ms_os ms) q =
        Some (Regular (if (q, c) \<in> set (ms_writes ms) then [] else c)))"

definition full_write :: "(string list \<times> bytes) list \<Rightarrow> mnn_write_event \<Rightarrow> bool" where
  "full_write L e = (case e of Mnn_write_done k n \<Rightarrow> \<forall>(q, c)\<in>set L. length c \<le> n)"

lemma write_keeps_inv:
  assumes "mnn_save_step ms e = (ms', as)" and "writes_inv L ms" and "distinct (map fst L)" and "full_write L e"
  shows "writes_inv L ms'"
proof -
  obtain k n where e: "e = Mnn_write_done k n" by (cases e) auto
  show ?thesis
  proof (cases "k < length (ms_writes ms)")
    case True
    obtain q bs where k: "ms_writes ms ! k = (q, bs)" by force
    let ?rest = "take k (ms_writes ms) @ drop (Suc k) (ms_writes ms)"
    have inv: "distinct (ms_writes ms)" "set (ms_writes ms) \<subseteq> set L"
      "\<And>q c. (q, c) \<in> set L \<Longrightarrow> node_at (ms_os ms) q =
         Some (Regular (if (q, c) \<in> set (ms_writes ms) then [] else c))"
      using assms(2) unfolding writes_inv_def by auto
    have mem: "(q, bs) \<in> set (ms_writes ms)" using True k nth_mem by force
    then have L: "(q, bs) \<in> set L" using inv(2) by blast
    have len: "length bs \<le> n" using assms(4) L e by (auto simp: full_write_def)
    have ms': "ms_writes ms' = ?rest" "ms_os ms' = destroy_FILEDevice (ms_devices ms ! k) (write_at_start q bs (ms_os ms))"
      using assms(1) e True k len by (auto simp: Let_def)
    have rest: "set ?rest = set (ms_writes ms) - {(q, bs)}" "distinct ?rest"
      using set_remove_nth[OF inv(1)] True k by simp_all
    have uniq: "(q, c) \<in> set L \<Longrightarrow> c = bs" for c
      using assms(3) L by (metis eq_key_imp_eq_value)
    have "node_at (ms_os ms') q' = Some (Regular (if (q', c) \<in> set (ms_writes ms') then [] else c))"
      if "(q', c) \<in> set L" for q' c
    proof (cases "q' = q")
      case True
      with that uniq have "c = bs" by simp
      with True inv(3)[OF that] mem ms' rest(1) show ?thesis by simp
    next
      case False
      with inv(3)[OF that] ms' rest(1) show ?thesis by simp
    qed
    then have "\<forall>(q, c)\<in>set L. node_at (ms_os ms') q =
        Some (Regular (if (q, c) \<in> set (ms_writes ms') then [] else c))" by blast
    moreover have "distinct (ms_writes ms')" "set (ms_writes ms') \<subseteq> set L"
      unfolding ms'(1) using rest inv(2) by (simp, blast)
    ultimately show ?thesis unfolding writes_inv_def by blast
  next
    case False
    with assms(1,2) e show ?thesis by simp
  qed
qed

lemma mnn_save_run_same_place:
  "dev_run mnn_save_step ms es = (ms', as) \<Longrightarrow> same_place (ms_os ms) (ms_os ms')"
proof (rule dev_run_invariant[where I = "\<lambda>m. same_place (ms_os ms) (ms_os m)" and Q = "\<lambda>_. True"])
  fix s e s' and as :: "mnn_act list"
  show "same_place (ms_os ms) (ms_os s) \<Longrightarrow> mnn_save_step s e = (s', as) \<Longrightarrow> same_place (ms_os ms) (ms_os s')"
    by (cases e) (auto simp: Let_def split: if_splits prod.splits)
qed auto

lemma mnn_saved_file_loads:
  assumes "MNNSaver_SaveASync assign uuid filename (Inr (Some (names, contents))) sfx loc s = (Inr (), ms, as0)"
    and "Post_write \<notin> set as0" and "filename \<noteq> []"
    and "distinct (save_paths s filename names)"
    and "dev_run mnn_save_step ms es = (ms', as)"
    and "\<forall>e\<in>set es. full_write (zip (save_paths s filename names) contents) e"
    and "ms_writes ms' = []" and "i < length names"
  shows "MNNLoader_LoadFile (filename @ names ! i) (ms_os ms') = Inr (Some (contents ! i))"
proof -
  let ?L = "zip (save_paths s filename names) contents"
  let ?q = "resolve_path s (filename @ names ! i)"
  obtain bs where loop: "mnn_save_loop assign filename names contents
      \<lparr>ms_os = s, ms_remaining = length names, ms_writes = [], ms_devices = []\<rparr> = (Inr (), ms, bs)"
    and post: "Post_write \<notin> set bs"
    by (rule SaveASync_returns[OF assms(1)]) (use assms(2,3) in simp)
  note opened = mnn_save_loop_opened[OF loop post, simplified, OF assms(4)]
  have len: "length ?L = length names" using opened by (simp add: save_paths_def)
  have dist: "distinct (map fst ?L)" using assms(4) by (simp add: map_fst_zip_take)
  have fresh: "node_at (ms_os ms) q = Some (Regular [])" if "(q, c) \<in> set ?L" for q c
    using set_zip_leftD[OF that] opened by (auto simp: save_paths_def)
  have "ms_writes ms = ?L" using opened by simp
  with fresh distinct_zipI1[OF assms(4)] have "writes_inv ?L ms"
    unfolding writes_inv_def by auto
  from dev_run_invariant[where I = "writes_inv ?L" and Q = "full_write ?L", OF assms(5) this assms(6)]
    write_keeps_inv dist have inv: "writes_inv ?L ms'" by blast
  have "?L ! i = (?q, contents ! i)" using assms(8) opened by (simp add: save_paths_def)
  then have "(?q, contents ! i) \<in> set ?L" using assms(8) len nth_mem by metis
  with inv assms(7) have node: "node_at (ms_os ms') ?q = Some (Regular (contents ! i))"
    by (auto simp: writes_inv_def)
  have sp: "same_place s (ms_os ms')"
    using same_place_trans[OF mnn_save_loop_same_place[OF loop] mnn_save_run_same_place[OF assms(5)]] by simp
  have "names ! i \<in> set names" using assms(8) by simp
  with opened have "os_refuses s ?q = 0" "filename @ names ! i \<noteq> []" by auto
  with node sp show ?thesis
    by (simp add: MNNLoader_LoadFile_def path_exists_def open_read_def same_place_resolve[OF sp])
      (simp add: same_place_def)
qed

text \<open>
  C14: when every file of a save could be opened, their paths differ and every write has
  finished in full, in whatever order, then loading any of the files through the loader
  of the same prefix gives back the bytes that were saved, also when a longer file of
  that name was there before.
\<close>

theorem mnn_save_then_load:
  assumes "MNNSaver_SaveASync assign uuid filename (Inr (Some (names, contents))) sfx loc s = (Inr (), ms, as0)"
    and "Post_write \<notin> set as0" and "filename \<noteq> []"
    and "distinct (save_paths s filename names)"
    and "dev_run mnn_save_step ms es = (ms', as)"
    and "\<forall>e\<in>set es. full_write (zip (save_paths s filename names) contents) e"
    and "ms_writes ms' = []" and "i < length names"
  shows "MNNLoader_LoadFile (filename @ names ! i) (ms_os ms') = Inr (Some (contents ! i))"
  using mnn_saved_file_loads[OF assms] .

lemma mnn_save_then_load_witness:
  "MNNLoader_LoadFile ''/d/f'' (ms_os (fst (dev_run mnn_save_step sample_save [Mnn_write_done 0 2]))) =
     Inr (Some ''hi'')"
proof -
  let ?r = "dev_run mnn_save_step sample_save [Mnn_write_done 0 2]"
  have p: "save_paths empty_os ''/d/'' [''f''] = [[''d'', ''f'']]"
    by (simp add: save_paths_def resolve_path_def path_is_absolute_def)
  have fin: "ms_writes (fst ?r) = []" by (simp add: sample_save_accepted(2,3) Let_def)
  show ?thesis
    using mnn_save_then_load[OF sample_save_accepted(1) _ _ _ prod.collapse[symmetric, of ?r] _ fin, of 0]
    by (simp add: p full_write_def)
qed

section \<open>Confinement\<close>

lemma resolve_parent_prefix:
  "path_filename p \<noteq> ''..'' \<Longrightarrow> prefix (resolve_path s (path_parent p)) (resolve_path s p)"
  by (subst (2) resolve_parent) auto

lemma filename_dotdot:
  "path_filename (d @ CHR ''/'' # n) = ''..'' \<Longrightarrow> ''..'' \<in> set (split_slash n)"
proof -
  assume a: "path_filename (d @ CHR ''/'' # n) = ''..''"
  show ?thesis
  proof (cases "CHR ''/'' \<in> set n")
    case True
    then obtain x f where n: "n = x @ CHR ''/'' # f" "CHR ''/'' \<notin> set f"
      using last_notin_split[OF True] by blast
    with a have "f = ''..''" using path_filename_slash[of f "d @ CHR ''/'' # x"] by simp
    then show ?thesis using n split_slash_append[of x f] by (simp add: split_slash_single)
  next
    case False
    with a have "n = ''..''" by (simp add: path_filename_slash)
    then show ?thesis by simp
  qed
qed

lemma resolve_below:
  "d \<noteq> [] \<Longrightarrow> ''..'' \<notin> set (split_slash n) \<Longrightarrow>
   prefix (resolve_path s d) (resolve_path s (d @ CHR ''/'' # n))"
  by (simp add: resolve_join walk_stays_below)

definition outside :: "string list \<Rightarrow> string list \<Rightarrow> bool" where
  "outside dir q \<longleftrightarrow> \<not> prefix dir q \<and> \<not> prefix q dir"

lemma mnn_save_file_confined:
  assumes "mnn_save_file assign (d @ CHR ''/'' # n) contents ms = (r, ms1, as)"
    and "d \<noteq> []" and "''..'' \<notin> set (split_slash n)" and "outside (resolve_path (ms_os ms) d) q"
  shows "node_at (ms_os ms1) q = node_at (ms_os ms) q"
proof -
  let ?p = "d @ CHR ''/'' # n"
  have below: "prefix (resolve_path (ms_os ms) d) (resolve_path (ms_os ms) ?p)"
    by (rule resolve_below[OF assms(2,3)])
  have par: "prefix (resolve_path (ms_os ms) (path_parent ?p)) (resolve_path (ms_os ms) ?p)"
    using resolve_parent_prefix filename_dotdot assms(3) by blast
  have "q \<noteq> resolve_path (ms_os ms) ?p" using below assms(4) by (auto simp: outside_def)
  moreover have "\<not> prefix q (resolve_path (ms_os ms) (path_parent ?p))"
    using par below assms(4) prefix_same_cases prefix_order.trans unfolding outside_def by metis
  ultimately show ?thesis using mnn_save_file_os(2)[OF assms(1)] by blast
qed

lemma mnn_save_loop_confined:
  assumes "mnn_save_loop assign (d @ ''/'') names contents ms = (r, ms', as)"
    and "d \<noteq> []" and "\<forall>n\<in>set names. ''..'' \<notin> set (split_slash n)"
    and "outside (resolve_path (ms_os ms) d) q"
    and "\<forall>w\<in>set (ms_writes ms). prefix (resolve_path (ms_os ms) d) (fst w)"
  shows "node_at (ms_os ms') q = node_at (ms_os ms) q \<and>
    (\<forall>w\<in>set (ms_writes ms'). prefix (resolve_path (ms_os ms) d) (fst w))"
  using assms
proof (induction names arbitrary: contents ms)
  case (Cons n names)
  have n: "''..'' \<notin> set (split_slash n)" using Cons.prems(3) by simp
  have one: "node_at (ms_os ms1) q = node_at (ms_os ms) q"
      "\<forall>w\<in>set (ms_writes ms1). prefix (resolve_path (ms_os ms) d) (fst w)"
    if "mnn_save_file assign ((d @ ''/'') @ n) contents ms = (r1, ms1, as1)" for r1 ms1 as1
  proof -
    from that have f: "mnn_save_file assign (d @ CHR ''/'' # n) contents ms = (r1, ms1, as1)" by simp
    show "node_at (ms_os ms1) q = node_at (ms_os ms) q"
      by (rule mnn_save_file_confined[OF f Cons.prems(2) n Cons.prems(4)])
    show "\<forall>w\<in>set (ms_writes ms1). prefix (resolve_path (ms_os ms) d) (fst w)"
      using mnn_save_file_cases(2,3)[OF f] Cons.prems(5) resolve_below[OF Cons.prems(2) n]
      by (cases "r1 = Inr True") auto
  qed
  from Cons.prems(1) show ?case
  proof (cases rule: mnn_save_loop_Cons_cases)
    case (go ms1)
    have res: "resolve_path (ms_os ms1) d = resolve_path (ms_os ms) d"
      by (rule same_place_resolve[OF mnn_save_file_os(1)[OF go(1)]])
    have "node_at (ms_os ms') q = node_at (ms_os ms1) q \<and>
        (\<forall>w\<in>set (ms_writes ms'). prefix (resolve_path (ms_os ms1) d) (fst w))"
      by (rule Cons.IH[OF go(2) Cons.prems(2)]) (use Cons.prems one[OF go(1)] res in auto)
    with one[OF go(1)] res show ?thesis by simp
  qed (use one in blast)+
qed simp

text \<open>
  C22: a save into the directory \<open>d/\<close> of names without a \<open>..\<close> component changes nothing
  outside that directory but the directories on the way to it, whether it succeeds,
  throws or stops at a file that cannot be opened, and however its writes end.
\<close>

theorem mnn_save_confined:
  assumes "MNNSaver_SaveASync assign uuid (d @ ''/'') (Inr (Some (names, contents))) sfx loc s = (r, ms, as0)"
    and "d \<noteq> []" and "\<forall>n\<in>set names. ''..'' \<notin> set (split_slash n)"
    and "outside (resolve_path s d) q"
    and "dev_run mnn_save_step ms es = (ms', as)"
  shows "node_at (ms_os ms') q = node_at s q"
proof (cases "contents = []")
  case True
  let ?I = "\<lambda>m. ms_os m = s \<and> ms_writes m = []"
  from True assms(1) have start: "?I ms" by (auto simp: MNNSaver_SaveASync_def)
  have "?I m'" if "?I m" "mnn_save_step m e = (m', bs)" for m e m' bs
    using that by (cases e) auto
  then have "?I ms'"
    using dev_run_invariant[where I = ?I and Q = "\<lambda>_. True", OF assms(5) start] by blast
  then show ?thesis by simp
next
  case False
  with assms(1) obtain bs where loop: "mnn_save_loop assign (d @ ''/'') names contents
      \<lparr>ms_os = s, ms_remaining = length names, ms_writes = [], ms_devices = []\<rparr> = (r, ms, bs)"
    by (auto simp: MNNSaver_SaveASync_def Let_def split: prod.splits)
  let ?I = "\<lambda>m. node_at (ms_os m) q = node_at s q \<and>
    (\<forall>w\<in>set (ms_writes m). prefix (resolve_path s d) (fst w))"
  have start: "?I ms"
    using mnn_save_loop_confined[OF loop assms(2,3)] assms(4) by simp
  have step: "?I m'" if "?I m" "mnn_save_step m e = (m', bs)" for m e m' bs
  proof -
    obtain k n where e: "e = Mnn_write_done k n" by (cases e) auto
    show ?thesis
    proof (cases "k < length (ms_writes m)")
      case True
      obtain p c where k: "ms_writes m ! k = (p, c)" by force
      then have "prefix (resolve_path s d) p" using that(1) True nth_mem by fastforce
      with assms(4) have "q \<noteq> p" by (auto simp: outside_def)
      with that e True k show ?thesis
        by (fastforce simp: Let_def dest: in_set_takeD in_set_dropD)
    qed (use that e in simp)
  qed
  show ?thesis
    using dev_run_invariant[where I = ?I and Q = "\<lambda>_. True", OF assms(5) start] step by blast
qed

lemma mnn_save_confined_witness:
  "node_at (ms_os (fst (dev_run mnn_save_step sample_save [Mnn_write_done 0 2]))) [''etc''] = None"
proof -
  let ?r = "dev_run mnn_save_step sample_save [Mnn_write_done 0 2]"
  have d: "''/d/'' = ''/d'' @ ''/''" by simp
  from mnn_save_confined[OF sample_save_accepted(1)[unfolded d] _ _ _ prod.collapse[symmetric, of ?r],
      of "[''etc'']"]
  show ?thesis by (simp add: outside_def resolve_path_def path_is_absolute_def empty_os_def node_at_def)
qed

text \<open>
  Nothing in the saver keeps a name inside the directory it saves to: the name
  \<open>../n\<close> truncates, or creates, and then writes the file \<open>n\<close> beside the directory, and
  names come from whoever published the content.
\<close>

theorem mnn_save_escapes:
  assumes "MNNSaver_SaveASync assign uuid (d @ ''/'') (Inr (Some ([''../'' @ n], [c]))) sfx loc s =
      (Inr (), ms, as0)"
    and "d \<noteq> []" and "plain_name n" and "Post_write \<notin> set as0"
  shows "ms_writes ms = [(butlast (resolve_path s d) @ [n], c)] \<and>
    node_at (ms_os ms) (butlast (resolve_path s d) @ [n]) = Some (Regular [])"
proof -
  obtain bs where loop: "mnn_save_loop assign (d @ ''/'') [''../'' @ n] [c]
      \<lparr>ms_os = s, ms_remaining = length [''../'' @ n], ms_writes = [], ms_devices = []\<rparr> = (Inr (), ms, bs)"
    and post: "Post_write \<notin> set bs"
    by (rule SaveASync_returns[OF assms(1)]) (use assms(4) in simp)
  have "split_slash (''../'' @ n) = [''..'', n]"
    using split_slash_append[of "''..''" n] assms(3) by (simp add: plain_name_def split_slash_single)
  then have "resolve_path s (d @ CHR ''/'' # ''../'' @ n) = butlast (resolve_path s d) @ [n]"
    using assms(3) by (simp only: resolve_join[OF assms(2)]) (simp add: plain_name_def)
  with mnn_save_loop_opened[OF loop post] show ?thesis by (simp add: save_paths_def)
qed

lemma mnn_save_escapes_witness:
  "node_at (ms_os (fst (snd (MNNSaver_SaveASync (\<lambda>_. ec_success) ''u'' ''/d/''
     (Inr (Some ([''../x''], [''hi''])) :: unit result_type) [] False empty_os)))) [''x''] = Some (Regular [])"
proof -
  let ?r = "MNNSaver_SaveASync (\<lambda>_. ec_success) ''u'' (''/d'' @ ''/'')
     (Inr (Some ([''../'' @ ''x''], [''hi''])) :: unit result_type) [] False empty_os"
  have ok: "fst ?r = Inr ()" "snd (snd ?r) = []"
    by (simp_all add: MNNSaver_SaveASync_def mnn_save_file_def os_eval Let_def)
  then have r: "?r = (Inr (), fst (snd ?r), [])" by (metis prod.collapse)
  from mnn_save_escapes[OF r] show ?thesis
    by (simp add: plain_name_def resolve_path_def path_is_absolute_def)
qed

section \<open>A local load\<close>

lemma mnn_load_starts:
  assumes "MNNLoader_LoadASync assign filename parse save s = (msg, ml, as, s')"
  shows "completions as = (if ml_reading ml then 0 else 1)"
  using assms by (auto simp: MNNLoader_LoadASync_def Let_def split: prod.splits if_splits)

text \<open>
  A local load completes exactly once; it delivers the last component of the path and
  the bytes read, with the flags it was asked for, exactly when the file could be opened
  and the read ended with an error of value 2 (the end of the file), and otherwise
  reports \<open>FILE_OPEN_FAIL\<close> or \<open>READ_ERROR\<close> with both flags off.
\<close>

theorem mnn_load_outcome:
  assumes "MNNLoader_LoadASync assign filename parse save s = (msg, ml, as0, s')"
    and "dev_run mnn_load_step ml (Mnn_read_done ec data # es) = (ml', as)"
  shows "as0 @ as = [if ec_failed (fst (FILEDevice_Open assign (FILEDevice filename 0) s))
      then Post_read (Inl MNN_FILE_OPEN_FAIL) False False
      else if ec_value ec = 2 then Handle_read (Inr (Some ([path_filename filename], [data]))) parse save
      else Handle_read (Inl MNN_READ_ERROR) False False]"
proof -
  have quiet: "\<not> ml_reading m \<Longrightarrow> dev_run mnn_load_step m es = (m', bs) \<Longrightarrow> bs = []" for m es m' bs
  proof (induction es arbitrary: m bs)
    case (Cons e es)
    then show ?case by (cases e) (auto split: prod.splits)
  qed simp
  obtain tryopen dev s1 where o: "FILEDevice_Open assign (FILEDevice filename 0) s = (tryopen, dev, s1)"
    by (metis prod_cases3)
  obtain m1 b1 b2 where st: "mnn_load_step ml (Mnn_read_done ec data) = (m1, b1)"
      "dev_run mnn_load_step m1 es = (ml', b2)" "as = b1 @ b2"
    using assms(2) unfolding dev_run_Cons_eq by blast
  have "\<not> ml_reading m1" using st(1) by (auto simp: mnn_on_read_def split: if_splits)
  from quiet[OF this st(2)] st assms(1) o show ?thesis
    by (auto simp: MNNLoader_LoadASync_def mnn_on_read_def Let_def split: if_splits)
qed

lemma mnn_load_outcome_witness:
  "snd (dev_run mnn_load_step (fst (snd (MNNLoader_LoadASync (\<lambda>_. ec_success) ''/d/f'' True False
      (put_node [''d'', ''f''] (Regular ''hi'') empty_os)))) [Mnn_read_done ec_eof ''hi'']) =
   [Handle_read (Inr (Some ([''f''], [''hi'']))) True False]"
proof -
  let ?s = "put_node [''d'', ''f''] (Regular ''hi'') empty_os"
  let ?r = "MNNLoader_LoadASync (\<lambda>_. ec_success) ''/d/f'' True False ?s"
  have as: "fst (snd (snd ?r)) = []" by (simp add: MNNLoader_LoadASync_def os_eval Let_def)
  then have r: "?r = (fst ?r, fst (snd ?r), [], snd (snd (snd ?r)))" by (metis prod.collapse)
  have "\<not> ec_failed (fst (FILEDevice_Open (\<lambda>_. ec_success) (FILEDevice ''/d/f'' 0) ?s))"
    by (simp add: os_eval Let_def)
  with mnn_load_outcome[OF r prod.collapse[symmetric], of ec_eof "''hi''" "[]"]
  show ?thesis by (simp add: ec_eof_def path_filename_def)
qed

end
