(* ===== verification/FileManager.thy ===== *)
theory FileManager
  imports AsyncPrelude UrlStringUtil
begin

text \<open>
  \<open>src/FileManager.cpp\<close> and \<open>include/FileManager.hpp\<close>: the registry of loaders,
  parsers and savers, the dispatch on the URL prefix and the counter of outstanding
  operations. The registered objects are pointers to abstract classes: their virtual
  methods are the fields of a record of functions over a state \<open>'w\<close> of their own, and
  the callbacks handed to them are data (the captures of the lambdas). A call returns a
  sum (\<open>Inl\<close> for an exception) and the new state.
\<close>

section \<open>State\<close>

text \<open>
  io_contexts are numbered. \<open>stopped\<close> records the calls of \<open>ioc->stop()\<close> in order,
  \<open>finals\<close> the calls of the application's final callbacks (numbered too).
\<close>

record ('l, 'p, 's, 'w, 'e) file_manager =
  loaders :: "string \<rightharpoonup> 'l"
  parsers :: "string \<rightharpoonup> 'p"
  savers :: "string \<rightharpoonup> 's"
  outstandingOperations :: int
  cacheDir :: string
  stopped :: "nat list"
  finals :: "(nat \<times> 'e result_type) list"
  world :: 'w

text \<open>The captures of \<open>handle_read\<close> in \<open>LoadASync\<close>.\<close>

record read_callback =
  rc_savetype :: string
  rc_suffix :: string
  rc_finalcall :: nat

text \<open>
  The two lambdas called \<open>handle_write\<close>: in \<open>handle_read\<close> (it captures \<open>this\<close> only) and
  in \<open>SaveASync\<close>, whose final callback may be empty.
\<close>

datatype 'e write_callback =
    Write_of_load
  | Write_of_save nat "nat option" "'e result_type"

record ('l, 'p, 's, 'w, 'e) vtable =
  v_LoadFile :: "'l \<Rightarrow> string \<Rightarrow> 'w \<Rightarrow> (exn + bytes option) \<times> 'w"
  v_LoadASync :: "'l \<Rightarrow> string \<Rightarrow> bool \<Rightarrow> bool \<Rightarrow> nat \<Rightarrow> read_callback \<Rightarrow> 'w \<Rightarrow> (exn + string) \<times> 'w"
  v_ParseData :: "'p \<Rightarrow> bytes option \<Rightarrow> 'w \<Rightarrow> (exn + bytes option) \<times> 'w"
  v_SaveFile :: "'s \<Rightarrow> string \<Rightarrow> bytes option \<Rightarrow> 'w \<Rightarrow> (exn + unit) \<times> 'w"
  v_SaveASync :: "'s \<Rightarrow> nat \<Rightarrow> 'e write_callback \<Rightarrow> string \<Rightarrow> 'e result_type \<Rightarrow> string \<Rightarrow>
     nat option \<Rightarrow> 'w \<Rightarrow> (exn + unit) \<times> 'w"

section \<open>Registration\<close>

definition RegisterLoader ::
  "string \<Rightarrow> 'l \<Rightarrow> ('l, 'p, 's, 'w, 'e) file_manager \<Rightarrow> ('l, 'p, 's, 'w, 'e) file_manager" where
  "RegisterLoader pfx handlerLoader fm = fm\<lparr>loaders := (loaders fm)(pfx \<mapsto> handlerLoader)\<rparr>"

definition RegisterParser ::
  "string \<Rightarrow> 'p \<Rightarrow> ('l, 'p, 's, 'w, 'e) file_manager \<Rightarrow> ('l, 'p, 's, 'w, 'e) file_manager" where
  "RegisterParser sfx handlerParser fm = fm\<lparr>parsers := (parsers fm)(sfx \<mapsto> handlerParser)\<rparr>"

definition RegisterSaver ::
  "string \<Rightarrow> 's \<Rightarrow> ('l, 'p, 's, 'w, 'e) file_manager \<Rightarrow> ('l, 'p, 's, 'w, 'e) file_manager" where
  "RegisterSaver pfx handlerSaver fm = fm\<lparr>savers := (savers fm)(pfx \<mapsto> handlerSaver)\<rparr>"

section \<open>The operation counter\<close>

definition IncrementOutstandingOperations ::
  "('l, 'p, 's, 'w, 'e) file_manager \<Rightarrow> ('l, 'p, 's, 'w, 'e) file_manager" where
  "IncrementOutstandingOperations fm =
     fm\<lparr>outstandingOperations := outstandingOperations fm + 1\<rparr>"

definition stop_ioc ::
  "nat \<Rightarrow> ('l, 'p, 's, 'w, 'e) file_manager \<Rightarrow> ('l, 'p, 's, 'w, 'e) file_manager" where
  "stop_ioc ioc fm = fm\<lparr>stopped := stopped fm @ [ioc]\<rparr>"

definition DecrementOutstandingOperations ::
  "nat \<Rightarrow> ('l, 'p, 's, 'w, 'e) file_manager \<Rightarrow> ('l, 'p, 's, 'w, 'e) file_manager" where
  "DecrementOutstandingOperations ioc fm =
     (if outstandingOperations fm \<le> 0 then stop_ioc ioc fm
      else let fm1 = fm\<lparr>outstandingOperations := outstandingOperations fm - 1\<rparr>
           in if outstandingOperations fm1 = 0 then stop_ioc ioc fm1 else fm1)"

definition GetOutstandingOperationsPointer :: "('l, 'p, 's, 'w, 'e) file_manager \<Rightarrow> int" where
  "GetOutstandingOperationsPointer fm = outstandingOperations fm"

text \<open>\<open>finalcall( buffers )\<close>\<close>

definition call_final ::
  "nat \<Rightarrow> 'e result_type \<Rightarrow> ('l, 'p, 's, 'w, 'e) file_manager \<Rightarrow> ('l, 'p, 's, 'w, 'e) file_manager" where
  "call_final k buffers fm = fm\<lparr>finals := finals fm @ [(k, buffers)]\<rparr>"

section \<open>Callbacks\<close>

text \<open>
  \<open>handle_read\<close>. \<open>parsers.find("mnn")\<close> and \<open>savers.find(savetype)\<close> are dereferenced
  without a comparison with \<open>end()\<close>.
\<close>

definition handle_read ::
  "('l, 'p, 's, 'w, 'e) vtable \<Rightarrow> read_callback \<Rightarrow> nat \<Rightarrow> 'e result_type \<Rightarrow> bool \<Rightarrow> bool \<Rightarrow>
   ('l, 'p, 's, 'w, 'e) file_manager \<Rightarrow> (exn + unit) \<times> ('l, 'p, 's, 'w, 'e) file_manager" where
  "handle_read vt cb ioc buffers parse save fm =
     (case buffers of
        Inl _ \<Rightarrow> (Inr (), call_final (rc_finalcall cb) buffers (DecrementOutstandingOperations ioc fm))
      | Inr _ \<Rightarrow>
          if parse \<and> parsers fm ''mnn'' = None then (Inl Undefined_behaviour, fm)
          else if save then
            (case savers fm (rc_savetype cb) of
               None \<Rightarrow> (Inl Undefined_behaviour, fm)
             | Some saver \<Rightarrow>
                 (case v_SaveASync vt saver ioc Write_of_load '''' buffers (rc_suffix cb) None (world fm) of
                    (Inl e, w) \<Rightarrow> (Inl e, fm\<lparr>world := w\<rparr>)
                  | (Inr _, w) \<Rightarrow> (Inr (), call_final (rc_finalcall cb) buffers (fm\<lparr>world := w\<rparr>))))
          else (Inr (), call_final (rc_finalcall cb) buffers (DecrementOutstandingOperations ioc fm)))"

definition handle_write ::
  "'e write_callback \<Rightarrow> nat \<Rightarrow> ('l, 'p, 's, 'w, 'e) file_manager \<Rightarrow> ('l, 'p, 's, 'w, 'e) file_manager" where
  "handle_write cb ioc fm =
     (case cb of
        Write_of_load \<Rightarrow> DecrementOutstandingOperations ioc fm
      | Write_of_save own_ioc finalcall data \<Rightarrow>
          (let fm1 = DecrementOutstandingOperations own_ioc fm
           in case finalcall of None \<Rightarrow> fm1 | Some k \<Rightarrow> call_final k data fm1))"

section \<open>Dispatch\<close>

text \<open>
  \<open>getURLComponents\<close> on three empty strings; its Boolean result is ignored by every
  caller, so a URL without "://" has the empty prefix.
\<close>

definition components :: "string \<Rightarrow> exn + url_parts" where
  "components url =
     (case getURLComponents url \<lparr>up_prefix = [], up_base = [], up_extension = []\<rparr> of
        None \<Rightarrow> Inl Out_of_range
      | Some (_, p) \<Rightarrow> Inr p)"

text \<open>The key of a URL in the maps of loaders and savers.\<close>

definition prefix_of :: "string \<Rightarrow> string" where
  "prefix_of url = (case components url of Inl _ \<Rightarrow> [] | Inr p \<Rightarrow> up_prefix p)"

definition LoadASync ::
  "('l, 'p, 's, 'w, 'e) vtable \<Rightarrow> string \<Rightarrow> bool \<Rightarrow> bool \<Rightarrow> nat \<Rightarrow> nat \<Rightarrow> string \<Rightarrow>
   ('l, 'p, 's, 'w, 'e) file_manager \<Rightarrow> (exn + string) \<times> ('l, 'p, 's, 'w, 'e) file_manager" where
  "LoadASync vt url parse save ioc finalcall savetype fm =
     (case components url of
        Inl e \<Rightarrow> (Inl e, fm)
      | Inr p \<Rightarrow>
          (case loaders fm (up_prefix p) of
             None \<Rightarrow> (Inl (Range_error (''No loader registered for prefix '' @ up_prefix p)), fm)
           | Some loader \<Rightarrow>
               let fm1 = IncrementOutstandingOperations fm;
                   cb = \<lparr>rc_savetype = savetype, rc_suffix = up_extension p, rc_finalcall = finalcall\<rparr>;
                   (r, w) = v_LoadASync vt loader (up_base p) parse save ioc cb (world fm1)
               in (r, fm1\<lparr>world := w\<rparr>)))"

definition SaveASync ::
  "('l, 'p, 's, 'w, 'e) vtable \<Rightarrow> string \<Rightarrow> 'e result_type \<Rightarrow> nat \<Rightarrow> nat option \<Rightarrow> nat option \<Rightarrow>
   ('l, 'p, 's, 'w, 'e) file_manager \<Rightarrow> (exn + unit) \<times> ('l, 'p, 's, 'w, 'e) file_manager" where
  "SaveASync vt url data ioc finalcall save_location fm =
     (case components url of
        Inl e \<Rightarrow> (Inl e, fm)
      | Inr p \<Rightarrow>
          (case savers fm (up_prefix p) of
             None \<Rightarrow> (Inl (Range_error (''No saver registered for prefix '' @ up_prefix p)), fm)
           | Some saver \<Rightarrow>
               let fm1 = IncrementOutstandingOperations fm
               in (case v_SaveASync vt saver ioc (Write_of_save ioc finalcall data) (up_base p) data
                          (up_extension p) save_location (world fm1) of
                     (Inl e, w) \<Rightarrow> (Inl e, DecrementOutstandingOperations ioc (fm1\<lparr>world := w\<rparr>))
                   | (Inr _, w) \<Rightarrow> (Inr (), fm1\<lparr>world := w\<rparr>))))"

definition ParseData ::
  "('l, 'p, 's, 'w, 'e) vtable \<Rightarrow> string \<Rightarrow> bytes option \<Rightarrow>
   ('l, 'p, 's, 'w, 'e) file_manager \<Rightarrow> (exn + bytes option) \<times> ('l, 'p, 's, 'w, 'e) file_manager" where
  "ParseData vt sfx data fm =
     (case parsers fm sfx of
        None \<Rightarrow> (Inl (Range_error (''No parser registered for suffix '' @ sfx)), fm)
      | Some parser \<Rightarrow> (let (r, w) = v_ParseData vt parser data (world fm) in (r, fm\<lparr>world := w\<rparr>)))"

definition LoadFile ::
  "('l, 'p, 's, 'w, 'e) vtable \<Rightarrow> string \<Rightarrow> bool \<Rightarrow>
   ('l, 'p, 's, 'w, 'e) file_manager \<Rightarrow> (exn + bytes option) \<times> ('l, 'p, 's, 'w, 'e) file_manager" where
  "LoadFile vt url parse fm =
     (case components url of
        Inl e \<Rightarrow> (Inl e, fm)
      | Inr p \<Rightarrow>
          (case loaders fm (up_prefix p) of
             None \<Rightarrow> (Inl (Range_error (''No loader registered for prefix '' @ up_prefix p)), fm)
           | Some loader \<Rightarrow>
               (case v_LoadFile vt loader (up_base p) (world fm) of
                  (Inl e, w) \<Rightarrow> (Inl e, fm\<lparr>world := w\<rparr>)
                | (Inr data, w) \<Rightarrow>
                    if parse then ParseData vt (up_extension p) data (fm\<lparr>world := w\<rparr>)
                    else (Inr data, fm\<lparr>world := w\<rparr>))))"

definition SaveFile ::
  "('l, 'p, 's, 'w, 'e) vtable \<Rightarrow> string \<Rightarrow> bytes option \<Rightarrow>
   ('l, 'p, 's, 'w, 'e) file_manager \<Rightarrow> (exn + unit) \<times> ('l, 'p, 's, 'w, 'e) file_manager" where
  "SaveFile vt url data fm =
     (case components url of
        Inl e \<Rightarrow> (Inl e, fm)
      | Inr p \<Rightarrow>
          (case savers fm (up_prefix p) of
             None \<Rightarrow> (Inl (Range_error (''No saver registered for prefix '' @ up_prefix p)), fm)
           | Some saver \<Rightarrow>
               (let (r, w) = v_SaveFile vt saver (up_base p) data (world fm) in (r, fm\<lparr>world := w\<rparr>))))"

section \<open>The registry contract\<close>

text \<open>
  What dispatch relies on: a lookup finds the last object registered under the prefix, and
  a registration under one prefix leaves the others alone.
\<close>

locale registry =
  fixes register :: "string \<Rightarrow> 'h \<Rightarrow> 'r \<Rightarrow> 'r"
    and lookup :: "'r \<Rightarrow> string \<rightharpoonup> 'h"
  assumes lookup_register: "lookup (register k h r) k = Some h"
    and lookup_other: "k \<noteq> k' \<Longrightarrow> lookup (register k h r) k' = lookup r k'"
begin

lemma lookup_fold:
  "lookup (fold (\<lambda>(k, h). register k h) regs r) k =
     (case map_of (rev regs) k of None \<Rightarrow> lookup r k | Some h \<Rightarrow> Some h)"
proof (induction regs arbitrary: r)
  case (Cons x regs)
  then show ?case
    by (cases x) (auto simp: lookup_register lookup_other map_add_def split: option.splits)
qed simp

lemma registration_survives:
  "k \<notin> fst ` set regs \<Longrightarrow>
   lookup (fold (\<lambda>(k, h). register k h) regs (register k h r)) k = Some h"
  by (simp add: lookup_fold lookup_register map_of_eq_None_iff[THEN iffD2])

lemma registrations_commute:
  "k \<noteq> k' \<Longrightarrow> lookup (register k h (register k' h' r)) = lookup (register k' h' (register k h r))"
  by (rule ext) (metis lookup_register lookup_other)

end

interpretation loader_registry: registry RegisterLoader loaders
  by unfold_locales (simp_all add: RegisterLoader_def)

interpretation parser_registry: registry RegisterParser parsers
  by unfold_locales (simp_all add: RegisterParser_def)

interpretation saver_registry: registry RegisterSaver savers
  by unfold_locales (simp_all add: RegisterSaver_def)

lemma components_returns: "\<exists>p. components url = Inr p"
  using url_components.returns[of url "\<lparr>up_prefix = [], up_base = [], up_extension = []\<rparr>"]
  by (auto simp: components_def)

lemma components_scheme [url_simps]:
  "\<not> sublist ''://'' p \<Longrightarrow> components (p @ ''://'' @ b) =
     Inr \<lparr>up_prefix = p, up_base = b, up_extension = extension_of b\<rparr>"
  using getURLComponents_scheme[of p b "\<lparr>up_prefix = [], up_base = [], up_extension = []\<rparr>"]
  by (simp add: components_def)

lemma components_no_scheme [url_simps]:
  "\<not> sublist ''://'' url \<Longrightarrow> components url = Inr \<lparr>up_prefix = [], up_base = [], up_extension = []\<rparr>"
  by (simp add: components_def getURLComponents_no_scheme)

section \<open>Counting operations\<close>

text \<open>
  The file manager together with the callbacks it has handed out and that have not been
  called yet. \<open>sys_leaked\<close> counts the operations that an exception has made nobody's:
  a loader that throws after the increment, and an exception inside \<open>handle_read\<close>.
\<close>

record ('l, 'p, 's, 'w, 'e) sys =
  sys_fm :: "('l, 'p, 's, 'w, 'e) file_manager"
  sys_reads :: "read_callback list"
  sys_writes :: "'e write_callback list"
  sys_leaked :: nat

datatype 'e fm_event =
    Do_load string bool bool nat nat string
  | Do_save string "'e result_type" nat "nat option" "nat option"
  | Read_done nat nat "'e result_type" bool bool
  | Write_done nat nat

definition remove_nth :: "nat \<Rightarrow> 'a list \<Rightarrow> 'a list" where
  "remove_nth k xs = take k xs @ drop (Suc k) xs"

definition load_callback :: "string \<Rightarrow> string \<Rightarrow> nat \<Rightarrow> read_callback" where
  "load_callback url savetype finalcall =
     \<lparr>rc_savetype = savetype,
      rc_suffix = (case components url of Inr p \<Rightarrow> up_extension p | Inl _ \<Rightarrow> []),
      rc_finalcall = finalcall\<rparr>"

fun fm_step ::
  "('l, 'p, 's, 'w, 'e) vtable \<Rightarrow> 'e fm_event \<Rightarrow> ('l, 'p, 's, 'w, 'e) sys \<Rightarrow> ('l, 'p, 's, 'w, 'e) sys" where
  "fm_step vt (Do_load url parse save ioc finalcall savetype) s =
     (case LoadASync vt url parse save ioc finalcall savetype (sys_fm s) of
        (Inr _, fm) \<Rightarrow>
          s\<lparr>sys_fm := fm, sys_reads := sys_reads s @ [load_callback url savetype finalcall]\<rparr>
      | (Inl _, fm) \<Rightarrow>
          s\<lparr>sys_fm := fm, sys_leaked := sys_leaked s +
              nat (outstandingOperations fm - outstandingOperations (sys_fm s))\<rparr>)"
| "fm_step vt (Do_save url data ioc finalcall save_location) s =
     (case SaveASync vt url data ioc finalcall save_location (sys_fm s) of
        (Inr _, fm) \<Rightarrow>
          s\<lparr>sys_fm := fm, sys_writes := sys_writes s @ [Write_of_save ioc finalcall data]\<rparr>
      | (Inl _, fm) \<Rightarrow> s\<lparr>sys_fm := fm\<rparr>)"
| "fm_step vt (Read_done k ioc buffers parse save) s =
     (if k < length (sys_reads s) then
        let s1 = s\<lparr>sys_reads := remove_nth k (sys_reads s)\<rparr>
        in (case handle_read vt (sys_reads s ! k) ioc buffers parse save (sys_fm s) of
              (Inr _, fm) \<Rightarrow>
                (if isl buffers \<or> \<not> save then s1\<lparr>sys_fm := fm\<rparr>
                 else s1\<lparr>sys_fm := fm, sys_writes := sys_writes s1 @ [Write_of_load]\<rparr>)
            | (Inl _, fm) \<Rightarrow> s1\<lparr>sys_fm := fm, sys_leaked := sys_leaked s1 + 1\<rparr>)
      else s)"
| "fm_step vt (Write_done k ioc) s =
     (if k < length (sys_writes s) then
        s\<lparr>sys_fm := handle_write (sys_writes s ! k) ioc (sys_fm s),
          sys_writes := remove_nth k (sys_writes s)\<rparr>
      else s)"

definition fm_run ::
  "('l, 'p, 's, 'w, 'e) vtable \<Rightarrow> 'e fm_event list \<Rightarrow> ('l, 'p, 's, 'w, 'e) sys \<Rightarrow> ('l, 'p, 's, 'w, 'e) sys" where
  "fm_run vt es s = fold (fm_step vt) es s"

definition fm_fresh :: "('l, 'p, 's, 'w, 'e) file_manager \<Rightarrow> ('l, 'p, 's, 'w, 'e) sys" where
  "fm_fresh fm = \<lparr>sys_fm = fm, sys_reads = [], sys_writes = [], sys_leaked = 0\<rparr>"

definition pending_operations :: "('l, 'p, 's, 'w, 'e) sys \<Rightarrow> nat" where
  "pending_operations s = length (sys_reads s) + length (sys_writes s) + sys_leaked s"

definition counter_inv :: "('l, 'p, 's, 'w, 'e) sys \<Rightarrow> bool" where
  "counter_inv s \<longleftrightarrow> outstandingOperations (sys_fm s) = int (pending_operations s)"

lemma DecrementOutstandingOperations_outstanding [step_simps]:
  "0 < outstandingOperations fm \<Longrightarrow>
   outstandingOperations (DecrementOutstandingOperations ioc fm) = outstandingOperations fm - 1"
  by (simp add: DecrementOutstandingOperations_def stop_ioc_def Let_def)

lemma DecrementOutstandingOperations_stopped [step_simps]:
  "0 < outstandingOperations fm \<Longrightarrow>
   stopped (DecrementOutstandingOperations ioc fm) =
     (if outstandingOperations fm = 1 then stopped fm @ [ioc] else stopped fm)"
  by (simp add: DecrementOutstandingOperations_def stop_ioc_def Let_def)

lemma call_final_simps [step_simps]:
  "outstandingOperations (call_final k b fm) = outstandingOperations fm"
  "stopped (call_final k b fm) = stopped fm"
  by (simp_all add: call_final_def)

lemma length_remove_nth [simp]: "k < length xs \<Longrightarrow> length (remove_nth k xs) = length xs - 1"
  by (simp add: remove_nth_def)

text \<open>The counter and the stop calls of each operation.\<close>

lemma LoadASync_counter:
  assumes "LoadASync vt url parse save ioc finalcall savetype fm = (r, fm')"
  shows "outstandingOperations fm' = outstandingOperations fm \<and> isl r \<or>
         outstandingOperations fm' = outstandingOperations fm + 1"
    and "stopped fm' = stopped fm"
  using assms
  by (auto simp: LoadASync_def IncrementOutstandingOperations_def Let_def
      split: sum.splits option.splits prod.splits)

lemma SaveASync_counter:
  assumes "SaveASync vt url data ioc finalcall sl fm = (r, fm')" and "0 \<le> outstandingOperations fm"
  shows "outstandingOperations fm' = outstandingOperations fm + (if isl r then 0 else 1)"
    and "stopped fm' \<noteq> stopped fm \<Longrightarrow> outstandingOperations fm' = 0"
  using assms
  by (auto simp: SaveASync_def IncrementOutstandingOperations_def Let_def step_simps
      split: sum.splits option.splits prod.splits if_splits)

lemma handle_read_counter:
  assumes "handle_read vt cb ioc buffers parse save fm = (r, fm')" and "0 < outstandingOperations fm"
  shows "outstandingOperations fm' = outstandingOperations fm -
           (if isl r \<or> \<not> isl buffers \<and> save then 0 else 1)"
    and "stopped fm' \<noteq> stopped fm \<Longrightarrow> outstandingOperations fm' = 0"
  using assms
  by (auto simp: handle_read_def step_simps split: sum.splits option.splits prod.splits if_splits)

lemma handle_write_counter:
  assumes "0 < outstandingOperations fm"
  shows "outstandingOperations (handle_write cb ioc fm) = outstandingOperations fm - 1"
    and "stopped (handle_write cb ioc fm) \<noteq> stopped fm \<Longrightarrow>
         outstandingOperations (handle_write cb ioc fm) = 0"
  using assms
  by (auto simp: handle_write_def Let_def step_simps split: write_callback.splits option.splits if_splits)

lemma last_completion_stops:
  assumes "0 < outstandingOperations fm"
  shows "handle_read vt cb ioc buffers parse save fm = (r, fm') \<Longrightarrow>
         outstandingOperations fm' = 0 \<Longrightarrow> stopped fm' = stopped fm @ [ioc]"
    and "outstandingOperations (handle_write wcb ioc fm) = 0 \<Longrightarrow>
         stopped (handle_write wcb ioc fm) \<noteq> stopped fm"
  using assms
  by (auto simp: handle_read_def handle_write_def Let_def step_simps
      split: sum.splits option.splits prod.splits if_splits write_callback.splits)

lemma counter_inv_step:
  assumes "counter_inv s"
  shows "counter_inv (fm_step vt e s)"
    and "stopped (sys_fm (fm_step vt e s)) \<noteq> stopped (sys_fm s) \<Longrightarrow>
         pending_operations (fm_step vt e s) = 0"
proof -
  let ?s' = "fm_step vt e s"
  have nonneg: "0 \<le> outstandingOperations (sys_fm s)"
    using assms by (simp add: counter_inv_def)
  have "counter_inv ?s' \<and> (stopped (sys_fm ?s') \<noteq> stopped (sys_fm s) \<longrightarrow>
      outstandingOperations (sys_fm ?s') = 0)"
  proof (cases e)
    case (Do_load url parse save ioc finalcall savetype)
    obtain r fm where l: "LoadASync vt url parse save ioc finalcall savetype (sys_fm s) = (r, fm)"
      by (cases "LoadASync vt url parse save ioc finalcall savetype (sys_fm s)")
    from LoadASync_counter[OF l] assms l Do_load show ?thesis
      by (cases r) (auto simp: counter_inv_def pending_operations_def)
  next
    case (Do_save url data ioc finalcall sl)
    obtain r fm where l: "SaveASync vt url data ioc finalcall sl (sys_fm s) = (r, fm)"
      by (cases "SaveASync vt url data ioc finalcall sl (sys_fm s)")
    from SaveASync_counter[OF l nonneg] assms l Do_save show ?thesis
      by (cases r) (auto simp: counter_inv_def pending_operations_def)
  next
    case (Read_done k ioc buffers parse save)
    show ?thesis
    proof (cases "k < length (sys_reads s)")
      case True
      then have pos: "0 < outstandingOperations (sys_fm s)"
        using assms by (auto simp: counter_inv_def pending_operations_def)
      obtain r fm where l: "handle_read vt (sys_reads s ! k) ioc buffers parse save (sys_fm s) = (r, fm)"
        by (cases "handle_read vt (sys_reads s ! k) ioc buffers parse save (sys_fm s)")
      from handle_read_counter[OF l pos] assms l True Read_done show ?thesis
        by (cases r; cases buffers; cases save)
          (auto simp: counter_inv_def pending_operations_def Let_def)
    qed (use assms Read_done in simp)
  next
    case (Write_done k ioc)
    show ?thesis
    proof (cases "k < length (sys_writes s)")
      case True
      then have pos: "0 < outstandingOperations (sys_fm s)"
        using assms by (auto simp: counter_inv_def pending_operations_def)
      from handle_write_counter[OF pos, of "sys_writes s ! k" ioc] assms True Write_done show ?thesis
        by (auto simp: counter_inv_def pending_operations_def)
    qed (use assms Write_done in simp)
  qed
  then show "counter_inv ?s'"
    and "stopped (sys_fm ?s') \<noteq> stopped (sys_fm s) \<Longrightarrow> pending_operations ?s' = 0"
    by (auto simp: counter_inv_def)
qed

lemma counter_inv_run: "counter_inv s \<Longrightarrow> counter_inv (fm_run vt es s)"
  unfolding fm_run_def by (induction es arbitrary: s) (simp_all add: counter_inv_step(1))

lemma last_step_stops:
  assumes "counter_inv s" and "0 < pending_operations s" and "pending_operations (fm_step vt e s) = 0"
  shows "stopped (sys_fm (fm_step vt e s)) \<noteq> stopped (sys_fm s)"
proof -
  from assms(1,2) have pos: "0 < outstandingOperations (sys_fm s)" by (simp add: counter_inv_def)
  from counter_inv_step(1)[OF assms(1), of vt e] assms(3)
  have zero: "outstandingOperations (sys_fm (fm_step vt e s)) = 0" by (simp add: counter_inv_def)
  show ?thesis
  proof (cases e)
    case (Do_load url parse save ioc finalcall savetype)
    obtain r fm where l: "LoadASync vt url parse save ioc finalcall savetype (sys_fm s) = (r, fm)"
      by (cases "LoadASync vt url parse save ioc finalcall savetype (sys_fm s)")
    from LoadASync_counter[OF l] pos zero l Do_load show ?thesis by (cases r) auto
  next
    case (Do_save url data ioc finalcall sl)
    obtain r fm where l: "SaveASync vt url data ioc finalcall sl (sys_fm s) = (r, fm)"
      by (cases "SaveASync vt url data ioc finalcall sl (sys_fm s)")
    from SaveASync_counter(1)[OF l] pos zero l Do_save show ?thesis by (cases r) auto
  next
    case (Read_done k ioc buffers parse save)
    obtain r fm where l: "handle_read vt (sys_reads s ! k) ioc buffers parse save (sys_fm s) = (r, fm)"
      by (cases "handle_read vt (sys_reads s ! k) ioc buffers parse save (sys_fm s)")
    from last_completion_stops(1)[OF pos l] pos zero l Read_done show ?thesis
      by (cases r) (auto simp: Let_def split: if_splits)
  next
    case (Write_done k ioc)
    from last_completion_stops(2)[OF pos, of "sys_writes s ! k" ioc] pos zero Write_done show ?thesis
      by (auto split: if_splits)
  qed
qed

lemma counter_inv_fresh: "outstandingOperations fm = 0 \<Longrightarrow> counter_inv (fm_fresh fm)"
  by (simp add: counter_inv_def fm_fresh_def pending_operations_def)

text \<open>
  For every set of registered handlers and every interleaving of loads, saves and
  completions, the counter is the number of callbacks handed out and not yet called plus
  the operations an exception has orphaned; in particular the "this should never happen"
  branch of the decrement is never taken as long as no callback is called twice.
\<close>

theorem counter_counts_pending_operations:
  assumes "outstandingOperations fm = 0"
  shows "outstandingOperations (sys_fm (fm_run vt es (fm_fresh fm))) =
    int (length (sys_reads (fm_run vt es (fm_fresh fm))) +
         length (sys_writes (fm_run vt es (fm_fresh fm))) +
         sys_leaked (fm_run vt es (fm_fresh fm)))"
  using counter_inv_run[OF counter_inv_fresh[OF assms], of vt es]
  by (simp add: counter_inv_def pending_operations_def)


lemma sys_leaked_step: "sys_leaked s \<le> sys_leaked (fm_step vt e s)"
  by (cases e) (auto simp: Let_def split: prod.splits sum.splits)

lemma leaked_run_silent:
  "counter_inv s \<Longrightarrow> 0 < sys_leaked s \<Longrightarrow> stopped (sys_fm (fm_run vt es s)) = stopped (sys_fm s)"
proof (induction es arbitrary: s)
  case (Cons e es)
  have "0 < sys_leaked (fm_step vt e s)"
    using Cons.prems(2) sys_leaked_step[of s vt e] by simp
  moreover from this have "pending_operations (fm_step vt e s) \<noteq> 0"
    by (simp add: pending_operations_def)
  with counter_inv_step(2)[OF Cons.prems(1), of vt e]
  have "stopped (sys_fm (fm_step vt e s)) = stopped (sys_fm s)" by auto
  ultimately show ?case
    using Cons.IH[OF counter_inv_step(1)[OF Cons.prems(1), of vt e]] by (simp add: fm_run_def)
qed (simp add: fm_run_def)

text \<open>
  Once one operation has been orphaned by an exception, no io_context is ever stopped
  again, whatever completes later: the application's wait for its context never ends.
\<close>

theorem orphaned_operation_blocks_stop:
  assumes "outstandingOperations fm = 0" and "s = fm_run vt es (fm_fresh fm)" and "0 < sys_leaked s"
  shows "stopped (sys_fm (fm_run vt es' s)) = stopped (sys_fm s)"
  using leaked_run_silent[OF _ assms(3)] counter_inv_run[OF counter_inv_fresh[OF assms(1)]] assms(2)
  by blast

section \<open>Dispatch\<close>

text \<open>
  A load of \<open>prefix://base\<close> goes to the loader registered last under that prefix,
  whatever is registered afterwards under other prefixes: that loader gets the base, the
  flags, the context and the callback with the save type and the extension, and the
  counter goes up by one.
\<close>

theorem LoadASync_dispatch:
  assumes "\<not> sublist ''://'' pfx" and "pfx \<notin> fst ` set regs"
  shows "LoadASync vt (pfx @ ''://'' @ base) parse save ioc finalcall savetype
      (fold (\<lambda>(k, h). RegisterLoader k h) regs (RegisterLoader pfx h fm)) =
    (let fm1 = IncrementOutstandingOperations
                 (fold (\<lambda>(k, h). RegisterLoader k h) regs (RegisterLoader pfx h fm));
         (r, w) = v_LoadASync vt h base parse save ioc
           \<lparr>rc_savetype = savetype, rc_suffix = extension_of base, rc_finalcall = finalcall\<rparr> (world fm1)
     in (r, fm1\<lparr>world := w\<rparr>))"
  using loader_registry.registration_survives[OF assms(2), of h fm] components_scheme[OF assms(1)]
  by (simp add: LoadASync_def)

text \<open>
  C33: a URL whose prefix nobody has registered (in particular the empty prefix of a URL
  without "://") makes all four entry points throw \<open>std::range_error\<close> naming it, and
  changes nothing, the counter included.
\<close>

theorem unregistered_prefix_throws:
  assumes "components url = Inr p"
    and "loaders fm (up_prefix p) = None" and "savers fm (up_prefix p) = None"
  shows "LoadASync vt url parse save ioc finalcall savetype fm =
      (Inl (Range_error (''No loader registered for prefix '' @ up_prefix p)), fm) \<and>
    LoadFile vt url parse fm =
      (Inl (Range_error (''No loader registered for prefix '' @ up_prefix p)), fm) \<and>
    SaveASync vt url data ioc final save_location fm =
      (Inl (Range_error (''No saver registered for prefix '' @ up_prefix p)), fm) \<and>
    SaveFile vt url content fm =
      (Inl (Range_error (''No saver registered for prefix '' @ up_prefix p)), fm)"
  using assms by (simp add: LoadASync_def LoadFile_def SaveASync_def SaveFile_def)

lemma LoadASync_accepts:
  assumes "components url = Inr p" and "loaders fm (up_prefix p) = Some l"
    and "\<And>cb w. \<exists>m w'. v_LoadASync vt l (up_base p) parse save ioc cb w = (Inr m, w')"
  shows "\<exists>m w. LoadASync vt url parse save ioc finalcall savetype fm =
    (Inr m, (IncrementOutstandingOperations fm)\<lparr>world := w\<rparr>)"
proof -
  obtain m w' where "v_LoadASync vt l (up_base p) parse save ioc
      \<lparr>rc_savetype = savetype, rc_suffix = up_extension p, rc_finalcall = finalcall\<rparr>
      (world (IncrementOutstandingOperations fm)) = (Inr m, w')"
    using assms(3) by blast
  with assms(1,2) show ?thesis by (simp add: LoadASync_def) blast
qed

text \<open>
  The counter is shared by all io_contexts but only the context of the last completion
  is stopped: of two loads started on the contexts 0 and 1 and completed there, context 0
  is never stopped.
\<close>

theorem other_context_not_stopped:
  assumes "outstandingOperations fm = 0"
    and "components url = Inr p" and "loaders fm (up_prefix p) = Some l"
    and "\<And>ioc cb w. \<exists>m w'. v_LoadASync vt l (up_base p) False False ioc cb w = (Inr m, w')"
  shows "stopped (sys_fm (fm_run vt
      [Do_load url False False 0 k0 [], Do_load url False False 1 k1 [],
       Read_done 0 0 b0 False False, Read_done 0 1 b1 False False] (fm_fresh fm))) =
    stopped fm @ [1]"
proof -
  have read: "handle_read vt cb ioc b False False f =
      (Inr (), call_final (rc_finalcall cb) b (DecrementOutstandingOperations ioc f))"
    for cb ioc b and f :: "('a, 'b, 'c, 'd, 'e) file_manager"
    by (cases b) (simp_all add: handle_read_def)
  obtain m0 w0 where 0: "LoadASync vt url False False 0 k0 [] fm =
      (Inr m0, (IncrementOutstandingOperations fm)\<lparr>world := w0\<rparr>)"
    using LoadASync_accepts[OF assms(2,3,4)] by blast
  let ?f1 = "(IncrementOutstandingOperations fm)\<lparr>world := w0\<rparr>"
  have "loaders ?f1 (up_prefix p) = Some l"
    using assms(3) by (simp add: IncrementOutstandingOperations_def)
  then obtain m1 w1 where 1: "LoadASync vt url False False 1 k1 [] ?f1 =
      (Inr m1, (IncrementOutstandingOperations ?f1)\<lparr>world := w1\<rparr>)"
    using LoadASync_accepts[OF assms(2) _ assms(4)] by blast
  have load0: "LoadASync vt url False False 0 k0 [] fm = (Inr m0, ?f1)" by (rule 0)
  show ?thesis
    using assms(1) 1
    by (simp add: fm_run_def fm_fresh_def load0 read Let_def step_simps remove_nth_def
        IncrementOutstandingOperations_def)
qed

section \<open>Witnesses\<close>

text \<open>
  One handler object of each kind that accepts everything, and one whose asynchronous load
  throws; both are ordinary instances of the abstract classes.
\<close>

definition accepting_handlers :: "('l, 'p, 's, 'w, 'e) vtable" where
  "accepting_handlers =
     \<lparr>v_LoadFile = (\<lambda>_ _ w. (Inr (Some ''data''), w)),
      v_LoadASync = (\<lambda>_ _ _ _ _ _ w. (Inr ''init'', w)),
      v_ParseData = (\<lambda>_ d w. (Inr d, w)),
      v_SaveFile = (\<lambda>_ _ _ w. (Inr (), w)),
      v_SaveASync = (\<lambda>_ _ _ _ _ _ _ w. (Inr (), w))\<rparr>"

definition throwing_handlers :: "(unit, unit, unit, unit, unit) vtable" where
  "throwing_handlers =
     accepting_handlers\<lparr>v_LoadASync :=
       (\<lambda>_ _ _ _ _ _ w. (Inl (Runtime_error ''Failed to set SNI''), w))\<rparr>"

definition sample_manager :: "(unit, unit, unit, unit, unit) file_manager" where
  "sample_manager =
     \<lparr>loaders = [''https'' \<mapsto> ()], parsers = Map.empty, savers = [''file'' \<mapsto> ()],
      outstandingOperations = 0, cacheDir = [], stopped = [], finals = [], world = ()\<rparr>"

abbreviation sample_url :: string where
  "sample_url \<equiv> ''https://h/f.bin''"

lemma sample_components:
  "components sample_url = Inr \<lparr>up_prefix = ''https'', up_base = ''h/f.bin'', up_extension = ''bin''\<rparr>"
  by code_simp

lemma counter_counts_pending_operations_witness:
  "outstandingOperations (sys_fm (fm_run accepting_handlers
     [Do_load sample_url False False 0 7 [], Do_load sample_url False False 0 8 []]
     (fm_fresh sample_manager))) = 2"
proof -
  have "outstandingOperations sample_manager = 0" by (simp add: sample_manager_def)
  from counter_counts_pending_operations[OF this, of accepting_handlers
      "[Do_load sample_url False False 0 7 [], Do_load sample_url False False 0 8 []]"]
  show ?thesis
    by (simp add: fm_run_def fm_fresh_def LoadASync_def sample_components sample_manager_def
        accepting_handlers_def IncrementOutstandingOperations_def)
qed


lemma orphaned_operation_blocks_stop_witness:
  "stopped (sys_fm (fm_run throwing_handlers
     [Do_save ''file://x'' (Inl ()) 5 None None, Write_done 0 5]
     (fm_run throwing_handlers [Do_load sample_url False False 3 7 []] (fm_fresh sample_manager)))) = []"
proof -
  let ?s = "fm_run throwing_handlers [Do_load sample_url False False 3 7 []] (fm_fresh sample_manager)"
  have o: "outstandingOperations sample_manager = 0" by (simp add: sample_manager_def)
  note defs = fm_run_def fm_fresh_def LoadASync_def sample_components sample_manager_def
    throwing_handlers_def accepting_handlers_def IncrementOutstandingOperations_def
  have "0 < sys_leaked ?s" and "stopped (sys_fm ?s) = []" by (simp_all add: defs)
  with orphaned_operation_blocks_stop[OF o refl, of throwing_handlers
      "[Do_load sample_url False False 3 7 []]"] show ?thesis by metis
qed

lemma LoadASync_dispatch_witness:
  "fst (LoadASync accepting_handlers (''https'' @ ''://'' @ ''h/f.bin'') False False 0 7 []
     (fold (\<lambda>(k, h). RegisterLoader k h) [(''ipfs'', ())] (RegisterLoader ''https'' () sample_manager)))
   = Inr ''init''"
proof -
  have "\<not> sublist ''://'' ''https''" and "''https'' \<notin> fst ` set [(''ipfs'', ())]" by code_simp+
  from LoadASync_dispatch[OF this, of accepting_handlers "''h/f.bin''" False False 0 7 "[]" "()" sample_manager]
  show ?thesis by (simp add: accepting_handlers_def)
qed

lemma unregistered_prefix_throws_witness:
  "fst (LoadFile accepting_handlers ''gopher://x'' False sample_manager) =
     Inl (Range_error ''No loader registered for prefix gopher'')"
proof -
  have "components ''gopher://x'' = Inr \<lparr>up_prefix = ''gopher'', up_base = ''x'', up_extension = []\<rparr>"
    by code_simp
  from unregistered_prefix_throws[OF this, of sample_manager accepting_handlers False]
  show ?thesis by (simp add: sample_manager_def)
qed

lemma other_context_not_stopped_witness:
  "stopped (sys_fm (fm_run accepting_handlers
      [Do_load sample_url False False 0 4 [], Do_load sample_url False False 1 5 [],
       Read_done 0 0 (Inl ()) False False, Read_done 0 1 (Inl ()) False False]
      (fm_fresh sample_manager))) = [] @ [1]"
proof -
  have "outstandingOperations sample_manager = 0" and "stopped sample_manager = []"
    and "loaders sample_manager ''https'' = Some ()"
    by (simp_all add: sample_manager_def)
  with other_context_not_stopped[OF _ sample_components, of sample_manager "()" accepting_handlers]
  show ?thesis by (simp add: accepting_handlers_def)
qed

end
