(* ===== verification/IpfsHandles.thy ===== *)
theory IpfsHandles
  imports FileManager
begin

text \<open>
  The external Bitswap and DHT of the IPFS handlers: \<open>setBitswap\<close>, \<open>clearBitswap\<close>
  and the queries of \<open>src/IPFSLoader.cpp\<close> and \<open>src/IPFSSaver.cpp\<close>, and the functions of
  \<open>src/FileManager.cpp\<close> that forward to them. A shared pointer is the number of the
  object it owns, or \<open>None\<close>; two are equal when they own the same object, which is what
  \<open>atomic_compare_exchange_strong\<close> compares.
\<close>

section \<open>The two holders\<close>

record ipfs_loader =
  externalBitswap :: "nat option"
  externalDht :: "nat option"

record ipfs_saver =
  saverBitswap :: "nat option"
  saverDht :: "nat option"

definition IPFSLoader_setBitswap :: "nat option \<Rightarrow> nat option \<Rightarrow> ipfs_loader \<Rightarrow> ipfs_loader" where
  "IPFSLoader_setBitswap bitswap dht l = l\<lparr>externalBitswap := bitswap, externalDht := dht\<rparr>"

definition IPFSLoader_clearBitswap :: "nat option \<Rightarrow> ipfs_loader \<Rightarrow> bool \<times> ipfs_loader" where
  "IPFSLoader_clearBitswap bitswap l =
     (if externalBitswap l = bitswap
      then (True, l\<lparr>externalBitswap := None, externalDht := None\<rparr>)
      else (False, l))"

definition IPFSLoader_hasExternalBitswap :: "ipfs_loader \<Rightarrow> bool" where
  "IPFSLoader_hasExternalBitswap l \<longleftrightarrow> externalBitswap l \<noteq> None"

definition IPFSLoader_hasExternalDHT :: "ipfs_loader \<Rightarrow> bool" where
  "IPFSLoader_hasExternalDHT l \<longleftrightarrow> externalDht l \<noteq> None"

definition IPFSSaver_setBitswap :: "nat option \<Rightarrow> nat option \<Rightarrow> ipfs_saver \<Rightarrow> ipfs_saver" where
  "IPFSSaver_setBitswap bitswap dht l = l\<lparr>saverBitswap := bitswap, saverDht := dht\<rparr>"

definition IPFSSaver_clearBitswap :: "nat option \<Rightarrow> ipfs_saver \<Rightarrow> bool \<times> ipfs_saver" where
  "IPFSSaver_clearBitswap bitswap l =
     (if saverBitswap l = bitswap
      then (True, l\<lparr>saverBitswap := None, saverDht := None\<rparr>)
      else (False, l))"

definition IPFSSaver_hasExternalBitswap :: "ipfs_saver \<Rightarrow> bool" where
  "IPFSSaver_hasExternalBitswap l \<longleftrightarrow> saverBitswap l \<noteq> None"

definition IPFSSaver_hasExternalDHT :: "ipfs_saver \<Rightarrow> bool" where
  "IPFSSaver_hasExternalDHT l \<longleftrightarrow> saverDht l \<noteq> None"

section \<open>The holder contract\<close>

locale bitswap_holder =
  fixes set_handles :: "nat option \<Rightarrow> nat option \<Rightarrow> 'h \<Rightarrow> 'h"
    and clear_handles :: "nat option \<Rightarrow> 'h \<Rightarrow> bool \<times> 'h"
    and bitswap_of :: "'h \<Rightarrow> nat option"
    and dht_of :: "'h \<Rightarrow> nat option"
  assumes after_set: "bitswap_of (set_handles b d h) = b" "dht_of (set_handles b d h) = d"
    and clear_owner: "bitswap_of h = b \<Longrightarrow> \<exists>h'. clear_handles b h = (True, h') \<and>
          bitswap_of h' = None \<and> dht_of h' = None"
    and clear_other: "bitswap_of h \<noteq> b \<Longrightarrow> clear_handles b h = (False, h)"
begin

lemma clear_reports_owner: "fst (clear_handles b h) \<longleftrightarrow> bitswap_of h = b"
  using clear_owner[of h b] clear_other[of h b] by (cases "bitswap_of h = b") auto

lemma clear_after_set: "bitswap_of (snd (clear_handles b (set_handles b d h))) = None"
  "dht_of (snd (clear_handles b (set_handles b d h))) = None"
  using clear_owner[of "set_handles b d h" b] after_set(1)[of b d h] by auto

lemma successor_survives: "b \<noteq> b' \<Longrightarrow> clear_handles b (set_handles b' d h) = (False, set_handles b' d h)"
  by (rule clear_other) (simp add: after_set)

end

interpretation loader_handles:
  bitswap_holder IPFSLoader_setBitswap IPFSLoader_clearBitswap externalBitswap externalDht
  by unfold_locales (auto simp: IPFSLoader_setBitswap_def IPFSLoader_clearBitswap_def)

interpretation saver_handles:
  bitswap_holder IPFSSaver_setBitswap IPFSSaver_clearBitswap saverBitswap saverDht
  by unfold_locales (auto simp: IPFSSaver_setBitswap_def IPFSSaver_clearBitswap_def)

section \<open>FileManager::setBitswap, clearBitswap, getCacheDir\<close>

text \<open>
  What a \<open>dynamic_cast\<close> to the IPFS classes gives access to: whether the registered object
  is of the class, and its two methods.
\<close>

record ('l, 's, 'w) ipfs_casts =
  is_IPFSLoader :: "'l \<Rightarrow> bool"
  loader_set :: "'l \<Rightarrow> nat option \<Rightarrow> nat option \<Rightarrow> 'w \<Rightarrow> 'w"
  loader_clear :: "'l \<Rightarrow> nat option \<Rightarrow> 'w \<Rightarrow> bool \<times> 'w"
  is_IPFSSaver :: "'s \<Rightarrow> bool"
  saver_set :: "'s \<Rightarrow> nat option \<Rightarrow> nat option \<Rightarrow> 'w \<Rightarrow> 'w"
  saver_clear :: "'s \<Rightarrow> nat option \<Rightarrow> 'w \<Rightarrow> bool \<times> 'w"

definition ipfs_loader_of :: "('l, 's, 'w) ipfs_casts \<Rightarrow> ('l, 'p, 's, 'w, 'e) file_manager \<Rightarrow> 'l option" where
  "ipfs_loader_of ct fm =
     (case loaders fm ''ipfs'' of
        None \<Rightarrow> None
      | Some l \<Rightarrow> if is_IPFSLoader ct l then Some l else None)"

definition ipfs_saver_of :: "('l, 's, 'w) ipfs_casts \<Rightarrow> ('l, 'p, 's, 'w, 'e) file_manager \<Rightarrow> 's option" where
  "ipfs_saver_of ct fm =
     (case savers fm ''ipfs'' of
        None \<Rightarrow> None
      | Some l \<Rightarrow> if is_IPFSSaver ct l then Some l else None)"

definition setBitswap ::
  "('l, 's, 'w) ipfs_casts \<Rightarrow> (nat \<Rightarrow> string) \<Rightarrow> nat option \<Rightarrow> nat option \<Rightarrow>
   ('l, 'p, 's, 'w, 'e) file_manager \<Rightarrow> ('l, 'p, 's, 'w, 'e) file_manager" where
  "setBitswap ct getCacheDir_of bitswap dht fm =
     (let fm1 = fm\<lparr>cacheDir := (case bitswap of Some b \<Rightarrow> getCacheDir_of b | None \<Rightarrow> [])\<rparr>;
          fm2 = (case ipfs_loader_of ct fm1 of
                   Some l \<Rightarrow> fm1\<lparr>world := loader_set ct l bitswap dht (world fm1)\<rparr>
                 | None \<Rightarrow> fm1)
      in (case ipfs_saver_of ct fm2 of
            Some v \<Rightarrow> fm2\<lparr>world := saver_set ct v bitswap dht (world fm2)\<rparr>
          | None \<Rightarrow> fm2))"

definition clearBitswap ::
  "('l, 's, 'w) ipfs_casts \<Rightarrow> nat option \<Rightarrow>
   ('l, 'p, 's, 'w, 'e) file_manager \<Rightarrow> ('l, 'p, 's, 'w, 'e) file_manager" where
  "clearBitswap ct bitswap fm =
     (if bitswap = None then fm
      else
        let (cleared1, fm1) =
              (case ipfs_loader_of ct fm of
                 Some l \<Rightarrow> (let (c, w) = loader_clear ct l bitswap (world fm) in (c, fm\<lparr>world := w\<rparr>))
               | None \<Rightarrow> (False, fm));
            (cleared2, fm2) =
              (case ipfs_saver_of ct fm1 of
                 Some v \<Rightarrow> (let (c, w) = saver_clear ct v bitswap (world fm1) in (c, fm1\<lparr>world := w\<rparr>))
               | None \<Rightarrow> (False, fm1))
        in if cleared1 \<or> cleared2 then fm2\<lparr>cacheDir := []\<rparr> else fm2)"

definition getCacheDir :: "('l, 'p, 's, 'w, 'e) file_manager \<Rightarrow> string" where
  "getCacheDir fm = cacheDir fm"

section \<open>Interleaved loads and stores\<close>

text \<open>
  \<open>LoadASync\<close> and \<open>SaveASync\<close> load the two pointers one after the other, \<open>setBitswap\<close>
  stores them one after the other; each access is atomic, the pair is not. A schedule is a
  shuffle of the accesses of two threads.
\<close>

datatype access =
    Store_bitswap "nat option"
  | Store_dht "nat option"
  | Load_bitswap
  | Load_dht

record shared_handles =
  sh_bitswap :: "nat option"
  sh_dht :: "nat option"
  sh_seen_bitswap :: "nat option"
  sh_seen_dht :: "nat option"

fun do_access :: "access \<Rightarrow> shared_handles \<Rightarrow> shared_handles" where
  "do_access (Store_bitswap b) s = s\<lparr>sh_bitswap := b\<rparr>"
| "do_access (Store_dht d) s = s\<lparr>sh_dht := d\<rparr>"
| "do_access Load_bitswap s = s\<lparr>sh_seen_bitswap := sh_bitswap s\<rparr>"
| "do_access Load_dht s = s\<lparr>sh_seen_dht := sh_dht s\<rparr>"

definition set_accesses :: "nat option \<Rightarrow> nat option \<Rightarrow> access list" where
  "set_accesses b d = [Store_bitswap b, Store_dht d]"

definition load_accesses :: "access list" where
  "load_accesses = [Load_bitswap, Load_dht]"

definition seen_pairs ::
  "nat option \<Rightarrow> nat option \<Rightarrow> nat option \<Rightarrow> nat option \<Rightarrow> (nat option \<times> nat option) set" where
  "seen_pairs b d b' d' =
     (\<lambda>sched. let s = fold do_access sched
                  \<lparr>sh_bitswap = b, sh_dht = d, sh_seen_bitswap = None, sh_seen_dht = None\<rparr>
              in (sh_seen_bitswap s, sh_seen_dht s)) ` shuffles (set_accesses b' d') load_accesses"

text \<open>
  A \<open>LoadASync\<close> that runs beside a \<open>setBitswap\<close> can see every combination: the old
  pair, the new pair, but also the new Bitswap with the old DHT and the old Bitswap with
  the new DHT.
\<close>

theorem torn_handle_pairs:
  "seen_pairs b d b' d' = {(b, d), (b', d'), (b', d), (b, d')}"
proof -
  have "shuffles (set_accesses b' d') load_accesses =
    {[Store_bitswap b', Store_dht d', Load_bitswap, Load_dht],
     [Store_bitswap b', Load_bitswap, Store_dht d', Load_dht],
     [Store_bitswap b', Load_bitswap, Load_dht, Store_dht d'],
     [Load_bitswap, Store_bitswap b', Store_dht d', Load_dht],
     [Load_bitswap, Store_bitswap b', Load_dht, Store_dht d'],
     [Load_bitswap, Load_dht, Store_bitswap b', Store_dht d']}"
    by (simp add: set_accesses_def load_accesses_def) blast
  then show ?thesis by (auto simp: seen_pairs_def)
qed

end
