(* ===== verification/Singletons.thy ===== *)
theory Singletons
  imports IpfsHandles
begin

text \<open>
  The singletons of \<open>include/ASIOSingleton.hpp\<close>, the constructors that register the
  handlers of the library, and \<open>FileManager::InitializeSingletons\<close>.
\<close>

section \<open>Handler objects\<close>

datatype loader_object =
    MNN_loader | HTTP_loader | IPFS_loader | SFTP_loader | WS_loader | User_loader nat

datatype saver_object =
    MNN_saver | IPFS_saver | SFTP_saver | User_saver nat

datatype parser_object = User_parser nat

text \<open>Which static \<open>_instance\<close> pointers are set.\<close>

record instances =
  loader_instances :: "loader_object list"
  saver_instances :: "saver_object list"

type_synonym ('w, 'e) library =
  "instances \<times> (loader_object, parser_object, saver_object, 'w, 'e) file_manager"

text \<open>\<open>if ( _instance == nullptr ) _instance = new the_class();\<close> with the constructor's registrations.\<close>

definition init_loader :: "loader_object \<Rightarrow> string list \<Rightarrow> ('w, 'e) library \<Rightarrow> ('w, 'e) library" where
  "init_loader l pfxs lib =
     (let (ins, fm) = lib
      in if l \<in> set (loader_instances ins) then lib
         else (ins\<lparr>loader_instances := l # loader_instances ins\<rparr>,
               fold (\<lambda>p. RegisterLoader p l) pfxs fm))"

definition init_saver :: "saver_object \<Rightarrow> string list \<Rightarrow> ('w, 'e) library \<Rightarrow> ('w, 'e) library" where
  "init_saver v pfxs lib =
     (let (ins, fm) = lib
      in if v \<in> set (saver_instances ins) then lib
         else (ins\<lparr>saver_instances := v # saver_instances ins\<rparr>,
               fold (\<lambda>p. RegisterSaver p v) pfxs fm))"

definition MNNLoader_InitializeSingleton :: "('w, 'e) library \<Rightarrow> ('w, 'e) library" where
  "MNNLoader_InitializeSingleton = init_loader MNN_loader [''file'']"

definition HTTPLoader_InitializeSingleton :: "('w, 'e) library \<Rightarrow> ('w, 'e) library" where
  "HTTPLoader_InitializeSingleton = init_loader HTTP_loader [''https'']"

definition IPFSLoader_InitializeSingleton :: "('w, 'e) library \<Rightarrow> ('w, 'e) library" where
  "IPFSLoader_InitializeSingleton = init_loader IPFS_loader [''ipfs'']"

definition SFTPLoader_InitializeSingleton :: "('w, 'e) library \<Rightarrow> ('w, 'e) library" where
  "SFTPLoader_InitializeSingleton = init_loader SFTP_loader [''sftp'']"

definition WSLoader_InitializeSingleton :: "('w, 'e) library \<Rightarrow> ('w, 'e) library" where
  "WSLoader_InitializeSingleton = init_loader WS_loader [''wss'']"

definition IPFSSaver_InitializeSingleton :: "('w, 'e) library \<Rightarrow> ('w, 'e) library" where
  "IPFSSaver_InitializeSingleton = init_saver IPFS_saver [''ipfs'']"

definition MNNSaver_InitializeSingleton :: "('w, 'e) library \<Rightarrow> ('w, 'e) library" where
  "MNNSaver_InitializeSingleton = init_saver MNN_saver [''file'', ''mnn'']"

definition SFTPSaver_InitializeSingleton :: "('w, 'e) library \<Rightarrow> ('w, 'e) library" where
  "SFTPSaver_InitializeSingleton = init_saver SFTP_saver [''sftp'']"

text \<open>The initialisations that are commented out in the source are left out here too.\<close>

definition InitializeSingletons :: "('w, 'e) library \<Rightarrow> ('w, 'e) library" where
  "InitializeSingletons lib =
     SFTPSaver_InitializeSingleton (MNNSaver_InitializeSingleton (IPFSSaver_InitializeSingleton
       (IPFSLoader_InitializeSingleton (HTTPLoader_InitializeSingleton
         (MNNLoader_InitializeSingleton lib)))))"

definition start_of_program :: "'w \<Rightarrow> ('w, 'e) library" where
  "start_of_program w =
     (\<lparr>loader_instances = [], saver_instances = []\<rparr>,
      \<lparr>loaders = Map.empty, parsers = Map.empty, savers = Map.empty, outstandingOperations = 0,
       cacheDir = [], stopped = [], finals = [], world = w\<rparr>)"

lemmas init_defs = InitializeSingletons_def MNNLoader_InitializeSingleton_def
  HTTPLoader_InitializeSingleton_def IPFSLoader_InitializeSingleton_def
  IPFSSaver_InitializeSingleton_def MNNSaver_InitializeSingleton_def
  SFTPSaver_InitializeSingleton_def init_loader_def init_saver_def Let_def

lemmas init_register_defs = RegisterLoader_def RegisterSaver_def

text \<open>
  Initialisation registers exactly the loaders file, https and ipfs and the savers
  ipfs, file, mnn and sftp, and no parser; doing it twice changes nothing.
\<close>

theorem InitializeSingletons_registers:
  "loaders (snd (InitializeSingletons (start_of_program w))) =
     [''file'' \<mapsto> MNN_loader, ''https'' \<mapsto> HTTP_loader, ''ipfs'' \<mapsto> IPFS_loader] \<and>
   savers (snd (InitializeSingletons (start_of_program w))) =
     [''ipfs'' \<mapsto> IPFS_saver, ''file'' \<mapsto> MNN_saver, ''mnn'' \<mapsto> MNN_saver, ''sftp'' \<mapsto> SFTP_saver] \<and>
   parsers (snd (InitializeSingletons (start_of_program w))) = Map.empty \<and>
   InitializeSingletons (InitializeSingletons (start_of_program w)) =
     InitializeSingletons (start_of_program w)"
  by (simp add: init_defs init_register_defs start_of_program_def)

text \<open>
  After initialisation no parser is registered, so the completion of any load that
  was asked to parse dereferences \<open>parsers.end()\<close>: undefined behaviour on every
  successful load, whatever was loaded.
\<close>

theorem parse_after_initialisation_undefined:
  "fst (handle_read vt cb ioc (Inr data) True save
     (snd (InitializeSingletons (start_of_program w)))) = Inl Undefined_behaviour"
  by (simp add: handle_read_def init_defs init_register_defs start_of_program_def)

section \<open>Handing Bitswap to the registered handlers\<close>

record async_world =
  the_ipfs_loader :: ipfs_loader
  the_ipfs_saver :: ipfs_saver

definition library_casts :: "(loader_object, saver_object, 'x async_world_scheme) ipfs_casts" where
  "library_casts =
     \<lparr>is_IPFSLoader = (\<lambda>l. l = IPFS_loader),
      loader_set = (\<lambda>_ b d w. w\<lparr>the_ipfs_loader := IPFSLoader_setBitswap b d (the_ipfs_loader w)\<rparr>),
      loader_clear = (\<lambda>_ b w. let (c, l) = IPFSLoader_clearBitswap b (the_ipfs_loader w)
                              in (c, w\<lparr>the_ipfs_loader := l\<rparr>)),
      is_IPFSSaver = (\<lambda>v. v = IPFS_saver),
      saver_set = (\<lambda>_ b d w. w\<lparr>the_ipfs_saver := IPFSSaver_setBitswap b d (the_ipfs_saver w)\<rparr>),
      saver_clear = (\<lambda>_ b w. let (c, v) = IPFSSaver_clearBitswap b (the_ipfs_saver w)
                             in (c, w\<lparr>the_ipfs_saver := v\<rparr>))\<rparr>"

text \<open>
  What \<open>FileManager\<close> relies on when it forwards to the two IPFS handlers: each behaves as
  a holder, and neither touches the other.
\<close>

locale ipfs_forwarding =
  fixes ct :: "('l, 's, 'w) ipfs_casts"
    and lb ld sb sd :: "'w \<Rightarrow> nat option"
  assumes loader_set_law: "lb (loader_set ct l b d w) = b" "ld (loader_set ct l b d w) = d"
      "sb (loader_set ct l b d w) = sb w" "sd (loader_set ct l b d w) = sd w"
    and saver_set_law: "sb (saver_set ct v b d w) = b" "sd (saver_set ct v b d w) = d"
      "lb (saver_set ct v b d w) = lb w" "ld (saver_set ct v b d w) = ld w"
    and loader_clear_law: "fst (loader_clear ct l b w) \<longleftrightarrow> lb w = b"
      "lb (snd (loader_clear ct l b w)) = (if lb w = b then None else lb w)"
      "ld (snd (loader_clear ct l b w)) = (if lb w = b then None else ld w)"
      "sb (snd (loader_clear ct l b w)) = sb w" "sd (snd (loader_clear ct l b w)) = sd w"
    and saver_clear_law: "fst (saver_clear ct v b w) \<longleftrightarrow> sb w = b"
      "sb (snd (saver_clear ct v b w)) = (if sb w = b then None else sb w)"
      "sd (snd (saver_clear ct v b w)) = (if sb w = b then None else sd w)"
      "lb (snd (saver_clear ct v b w)) = lb w" "ld (snd (saver_clear ct v b w)) = ld w"
begin

lemma set_observed:
  assumes "ipfs_loader_of ct fm = Some l" and "ipfs_saver_of ct fm = Some v"
  shows "lb (world (setBitswap ct gc b d fm)) = b" "ld (world (setBitswap ct gc b d fm)) = d"
    "sb (world (setBitswap ct gc b d fm)) = b" "sd (world (setBitswap ct gc b d fm)) = d"
    "cacheDir (setBitswap ct gc b d fm) = (case b of Some x \<Rightarrow> gc x | None \<Rightarrow> [])"
    "ipfs_loader_of ct (setBitswap ct gc b d fm) = Some l"
    "ipfs_saver_of ct (setBitswap ct gc b d fm) = Some v"
  using assms
  by (auto simp: setBitswap_def ipfs_loader_of_def ipfs_saver_of_def Let_def
      loader_set_law saver_set_law split: option.splits)

lemma clear_observed:
  assumes "ipfs_loader_of ct fm = Some l" and "ipfs_saver_of ct fm = Some v"
    and "lb (world fm) = Some b" and "sb (world fm) = Some b"
  shows "lb (world (clearBitswap ct (Some b') fm)) = (if b' = b then None else Some b)"
    "ld (world (clearBitswap ct (Some b') fm)) = (if b' = b then None else ld (world fm))"
    "sb (world (clearBitswap ct (Some b') fm)) = (if b' = b then None else Some b)"
    "sd (world (clearBitswap ct (Some b') fm)) = (if b' = b then None else sd (world fm))"
    "cacheDir (clearBitswap ct (Some b') fm) = (if b' = b then [] else cacheDir fm)"
proof -
  obtain c1 w1 where 1: "loader_clear ct l (Some b') (world fm) = (c1, w1)" by force
  obtain c2 w2 where 2: "saver_clear ct v (Some b') w1 = (c2, w2)" by force
  have sv: "ipfs_saver_of ct (fm\<lparr>world := w1\<rparr>) = Some v"
    using assms(2) by (simp add: ipfs_saver_of_def)
  have eq: "clearBitswap ct (Some b') fm =
      (if c1 \<or> c2 then fm\<lparr>world := w2, cacheDir := []\<rparr> else fm\<lparr>world := w2\<rparr>)"
    using assms(1) sv 1 2 by (simp add: clearBitswap_def)
  have w1: "c1 \<longleftrightarrow> b' = b" "lb w1 = (if b' = b then None else Some b)"
      "ld w1 = (if b' = b then None else ld (world fm))" "sb w1 = Some b" "sd w1 = sd (world fm)"
    using loader_clear_law[of l "Some b'" "world fm"] 1 assms(3,4) by auto
  have w2: "c2 \<longleftrightarrow> b' = b" "lb w2 = lb w1" "ld w2 = ld w1"
      "sb w2 = (if b' = b then None else Some b)" "sd w2 = (if b' = b then None else sd (world fm))"
    using saver_clear_law[of v "Some b'" w1] 2 w1 by auto
  show "lb (world (clearBitswap ct (Some b') fm)) = (if b' = b then None else Some b)"
    "ld (world (clearBitswap ct (Some b') fm)) = (if b' = b then None else ld (world fm))"
    "sb (world (clearBitswap ct (Some b') fm)) = (if b' = b then None else Some b)"
    "sd (world (clearBitswap ct (Some b') fm)) = (if b' = b then None else sd (world fm))"
    "cacheDir (clearBitswap ct (Some b') fm) = (if b' = b then [] else cacheDir fm)"
    unfolding eq using w1 w2 by auto
qed

end

interpretation library_ipfs: ipfs_forwarding library_casts
    "\<lambda>w. externalBitswap (the_ipfs_loader w)" "\<lambda>w. externalDht (the_ipfs_loader w)"
    "\<lambda>w. saverBitswap (the_ipfs_saver w)" "\<lambda>w. saverDht (the_ipfs_saver w)"
  by unfold_locales
    (auto simp: library_casts_def loader_handles.after_set saver_handles.after_set
      IPFSLoader_clearBitswap_def IPFSSaver_clearBitswap_def Let_def split: prod.splits)

definition handles_of_world :: "'x async_world_scheme \<Rightarrow> nat option list" where
  "handles_of_world w =
     [externalBitswap (the_ipfs_loader w), externalDht (the_ipfs_loader w),
      saverBitswap (the_ipfs_saver w), saverDht (the_ipfs_saver w)]"

text \<open>
  C32: a Bitswap handed to the file manager reaches both IPFS handlers with its DHT, and
  \<open>clearBitswap\<close> takes it back from both, the DHT and the cache directory included,
  exactly when it is called for that same Bitswap: a node that is gone cannot clear the
  handles of its successor.
\<close>

theorem clearBitswap_only_by_owner:
  assumes "loaders fm ''ipfs'' = Some IPFS_loader" and "savers fm ''ipfs'' = Some IPFS_saver"
  shows "let fm' = clearBitswap library_casts (Some b') (setBitswap library_casts gc (Some b) d fm)
    in handles_of_world (world fm') =
         (if b' = b then [None, None, None, None] else [Some b, d, Some b, d]) \<and>
       cacheDir fm' = (if b' = b then [] else gc b)"
proof -
  have "ipfs_loader_of library_casts fm = Some IPFS_loader"
    "ipfs_saver_of library_casts fm = Some IPFS_saver"
    using assms by (simp_all add: ipfs_loader_of_def ipfs_saver_of_def library_casts_def)
  note set = library_ipfs.set_observed[OF this, of gc "Some b" d]
  from library_ipfs.clear_observed[OF set(6,7,1,3), of b'] set show ?thesis
    by (simp add: handles_of_world_def Let_def)
qed

text \<open>A process right after start-up, no Bitswap attached.\<close>

definition fresh_library :: "(async_world, unit) library" where
  "fresh_library = InitializeSingletons (start_of_program
     \<lparr>the_ipfs_loader = \<lparr>externalBitswap = None, externalDht = None\<rparr>,
      the_ipfs_saver = \<lparr>saverBitswap = None, saverDht = None\<rparr>\<rparr>)"

lemma fresh_library_ipfs:
  "loaders (snd fresh_library) ''ipfs'' = Some IPFS_loader"
  "savers (snd fresh_library) ''ipfs'' = Some IPFS_saver"
  by (simp_all add: fresh_library_def init_defs init_register_defs start_of_program_def)

lemma clearBitswap_only_by_owner_witness:
  "handles_of_world (world (clearBitswap library_casts (Some 2)
       (setBitswap library_casts (\<lambda>_. ''/cache'') (Some 1) None (snd fresh_library)))) =
     [Some 1, None, Some 1, None]"
  using clearBitswap_only_by_owner[OF fresh_library_ipfs, of 2 "\<lambda>_. ''/cache''" 1 None]
  by (simp add: Let_def)

end
