(* ===== verification/Delivery.thy ===== *)
theory Delivery
  imports HttpDevice WsDevice MnnFiles Singletons
begin

text \<open>
  The components put together: the completion callbacks of a device run on the file
  manager that started it, and the local loader and saver run behind the virtual methods
  that \<open>FileManager\<close> calls, over one file system and one io_context.
\<close>

section \<open>A device behind handle_read\<close>

text \<open>
  The completion callback a device holds is \<open>handle_read\<close> with its captures \<open>cb\<close>. \<open>wrap\<close>
  makes the device's error code one of the file manager's (\<open>std::error_code\<close> erases the
  enumeration).
\<close>

fun deliver_read ::
  "('l, 'p, 's, 'w, 'e) vtable \<Rightarrow> read_callback \<Rightarrow> nat \<Rightarrow> ('d \<Rightarrow> 'e) \<Rightarrow> ('d, 'x) act \<Rightarrow>
   ('l, 'p, 's, 'w, 'e) file_manager \<Rightarrow> ('l, 'p, 's, 'w, 'e) file_manager" where
  "deliver_read vt cb ioc wrap (Handle_read r parse save) fm =
     snd (handle_read vt cb ioc (map_sum wrap (\<lambda>b. b) r) parse save fm)"
| "deliver_read vt cb ioc wrap (Post_read r parse save) fm =
     snd (handle_read vt cb ioc (map_sum wrap (\<lambda>b. b) r) parse save fm)"
| "deliver_read vt cb ioc wrap _ fm = fm"

definition deliver ::
  "('l, 'p, 's, 'w, 'e) vtable \<Rightarrow> read_callback \<Rightarrow> nat \<Rightarrow> ('d \<Rightarrow> 'e) \<Rightarrow> ('d, 'x) act list \<Rightarrow>
   ('l, 'p, 's, 'w, 'e) file_manager \<Rightarrow> ('l, 'p, 's, 'w, 'e) file_manager" where
  "deliver vt cb ioc wrap as fm = fold (deliver_read vt cb ioc wrap) as fm"

text \<open>The results a list of actions reports, and whether none asks to parse or to save.\<close>

fun result_of :: "('d, 'x) act \<Rightarrow> 'd result_type list" where
  "result_of (Handle_read r _ _) = [r]"
| "result_of (Post_read r _ _) = [r]"
| "result_of _ = []"

definition results :: "('d, 'x) act list \<Rightarrow> 'd result_type list" where
  "results as = concat (map result_of as)"

fun plain_read :: "('d, 'x) act \<Rightarrow> bool" where
  "plain_read (Handle_read _ parse save) \<longleftrightarrow> \<not> parse \<and> \<not> save"
| "plain_read (Post_read _ parse save) \<longleftrightarrow> \<not> parse \<and> \<not> save"
| "plain_read (Io _) = True"
| "plain_read _ = False"

lemma results_simps [simp]:
  "results [] = []" "results (a # as) = result_of a @ results as"
  "results (as @ bs) = results as @ results bs"
  by (simp_all add: results_def)

lemma length_results: "\<forall>a\<in>set as. plain_read a \<Longrightarrow> length (results as) = completions as"
proof (induction as)
  case (Cons a as)
  then show ?case by (cases a) auto
qed simp

lemma plain_handle_read:
  "handle_read vt cb ioc r False False fm =
     (Inr (), call_final (rc_finalcall cb) r (DecrementOutstandingOperations ioc fm))"
  by (simp add: handle_read_def split: sum.splits)

lemma Decrement_nonneg:
  "0 \<le> outstandingOperations fm \<Longrightarrow> 0 \<le> outstandingOperations (DecrementOutstandingOperations ioc fm)"
  "0 \<le> outstandingOperations fm \<Longrightarrow> outstandingOperations (DecrementOutstandingOperations ioc fm) =
     max 0 (outstandingOperations fm - 1)"
  "stopped (DecrementOutstandingOperations ioc fm) =
     (if outstandingOperations fm \<le> 1 then stopped fm @ [ioc] else stopped fm)"
  "finals (DecrementOutstandingOperations ioc fm) = finals fm"
  by (auto simp: DecrementOutstandingOperations_def stop_ioc_def Let_def)

text \<open>
  What plain completions do, however many there are: every one calls the final callback
  and takes one off the counter, and every one that finds the counter at one or zero
  stops the context.
\<close>

lemma deliver_plain:
  assumes "\<forall>a\<in>set as. plain_read a" and "0 \<le> outstandingOperations fm"
  shows "finals (deliver vt cb ioc wrap as fm) =
      finals fm @ map (\<lambda>r. (rc_finalcall cb, map_sum wrap (\<lambda>b. b) r)) (results as) \<and>
    outstandingOperations (deliver vt cb ioc wrap as fm) =
      max 0 (outstandingOperations fm - int (length (results as))) \<and>
    stopped (deliver vt cb ioc wrap as fm) = stopped fm @ replicate
      (length (results as) - nat (outstandingOperations fm - 1)) ioc"
  using assms
proof (induction as arbitrary: fm)
  case (Cons a as)
  show ?case
  proof (cases "result_of a")
    case Nil
    with Cons show ?thesis by (cases a) (auto simp: deliver_def)
  next
    case (Cons r rs)
    with Cons.prems have rs: "rs = []" and
      step: "deliver vt cb ioc wrap (a # as) fm = deliver vt cb ioc wrap as
        (call_final (rc_finalcall cb) (map_sum wrap (\<lambda>b. b) r) (DecrementOutstandingOperations ioc fm))"
      by (cases a; auto simp: deliver_def plain_handle_read)+
    let ?fm1 = "call_final (rc_finalcall cb) (map_sum wrap (\<lambda>b. b) r) (DecrementOutstandingOperations ioc fm)"
    have "0 \<le> outstandingOperations ?fm1" "\<forall>a\<in>set as. plain_read a"
      using Cons.prems by (simp_all add: call_final_def Decrement_nonneg)
    note ih = Cons.IH[OF this(2,1)]
    have out: "outstandingOperations ?fm1 = max 0 (outstandingOperations fm - 1)"
      and fin: "finals ?fm1 = finals fm @ [(rc_finalcall cb, map_sum wrap (\<lambda>b. b) r)]"
      and stop: "stopped ?fm1 = (if outstandingOperations fm \<le> 1 then stopped fm @ [ioc] else stopped fm)"
      using Cons.prems(2) by (simp_all add: call_final_def Decrement_nonneg)
    have n: "length (results (a # as)) = Suc (length (results as))" using Cons rs by simp
    show ?thesis unfolding step n using ih Cons rs Cons.prems(2)
      by (auto simp: out fin stop nat_diff_distrib replicate_append_same Suc_diff_le
          simp flip: replicate_Suc)
  qed
qed (simp add: deliver_def)

section \<open>A download over https, from the call to the counter\<close>

definition http_plain :: "http_run \<Rightarrow> bool" where
  "http_plain s \<longleftrightarrow> \<not> http_parse (hr_device s) \<and> \<not> http_save (hr_device s)"

lemma http_step_plain:
  assumes "http_step s e = (s', as)" and "http_plain s"
  shows "http_plain s'" "a \<in> set as \<Longrightarrow> plain_read a"
proof -
  have "http_plain s' \<and> (\<forall>a\<in>set as. plain_read a)"
    using assms
    by (cases e) (auto simp: http_plain_def op_handler_def http_handler_defs deadline_handler_def
        cancel_deadline_at_def finish_def begin_op_def ArmDeadline_def http_response_def
        split: if_splits option.splits prod.splits timer_state.splits io_status.splits http_op.splits)
  then show "http_plain s'" "a \<in> set as \<Longrightarrow> plain_read a" by auto
qed

lemma http_load_plain:
  assumes "HTTPLoader_LoadASync resolve sni filename False False = Inr (msg, s, as)"
  shows "http_plain s" "a \<in> set as \<Longrightarrow> plain_read a"
  using assms
  by (auto simp: HTTPLoader_LoadASync_def StartHTTPDownload_def HTTPDevice_def Let_def ArmDeadline_def
      begin_op_def http_plain_def split: option.splits if_splits sum.splits)

text \<open>
  A plain load over https that has ended has called the application's final callback
  once and taken one operation off the counter, whatever the URL, the resolver, the
  network and the timers did; the io_context was stopped when it was the only operation.
\<close>

theorem http_load_ends_operation:
  assumes "HTTPLoader_LoadASync resolve sni filename False False = Inr (msg, s, as0)"
    and "dev_run http_step s es = (s', as)" and "hr_op s' = None"
    and "0 < outstandingOperations fm"
  shows "\<exists>r. finals (deliver vt cb ioc wrap (as0 @ as) fm) = finals fm @ [(rc_finalcall cb, r)] \<and>
    outstandingOperations (deliver vt cb ioc wrap (as0 @ as) fm) = outstandingOperations fm - 1 \<and>
    stopped (deliver vt cb ioc wrap (as0 @ as) fm) =
      stopped fm @ (if outstandingOperations fm = 1 then [ioc] else [])"
proof -
  have plain: "\<forall>a\<in>set (as0 @ as). plain_read a"
    using http_load_plain[OF assms(1)] dev_run_actions[OF assms(2), of http_plain "\<lambda>_. True" _ plain_read]
      http_step_plain by auto
  have "completions (as0 @ as) = 1"
    using http.started_once[OF TrueI LoadASync_starts[OF assms(1)] assms(2)] assms(3) by simp
  then obtain r where r: "results (as0 @ as) = [r]"
    using length_results[OF plain] by (metis One_nat_def length_0_conv length_Suc_conv)
  show ?thesis
    using deliver_plain[OF plain, of fm vt cb ioc wrap] assms(4) unfolding r by (auto simp: of_nat_diff)
qed

section \<open>A resolver failure of the WebSocket loader\<close>

text \<open>
  C38: when the host of a wss URL cannot be resolved, the one load ends two operations: its
  final callback is called twice, with \<open>COULD_NOT_RESOLVE\<close> and then \<open>CONNECT_ERROR\<close>, the
  counter goes down by two, and an io_context on which one other operation is still
  running is stopped.
\<close>

theorem ws_failed_resolve_ends_two_operations:
  assumes "resolve (ws_host d) (ws_port d) = Inl e" and "StartWSDownload resolve d = (s, as0)"
    and "dev_run ws_step s [Ws_completes ec data, Ws_handler] = (s', as)"
    and "2 \<le> outstandingOperations fm"
  shows "finals (deliver vt cb ioc wrap (as0 @ as) fm) = finals fm @
      [(rc_finalcall cb, Inl (wrap (Ws_failed WS_COULD_NOT_RESOLVE))), (rc_finalcall cb, Inl (wrap (Ws_failed WS_CONNECT_ERROR)))] \<and>
    outstandingOperations (deliver vt cb ioc wrap (as0 @ as) fm) = outstandingOperations fm - 2 \<and>
    (outstandingOperations fm = 2 \<longrightarrow>
      stopped (deliver vt cb ioc wrap (as0 @ as) fm) = stopped fm @ [ioc])"
proof -
  have as: "as0 @ as = [Post_read (Inl (Ws_failed WS_COULD_NOT_RESOLVE)) False False, Handle_read (Inl (Ws_failed WS_CONNECT_ERROR)) False False]"
    using assms(1-3)
    by (auto simp: StartWSDownload_def ws_result_def ws_handler_defs)
  show ?thesis
    using deliver_plain[of "as0 @ as" fm vt cb ioc wrap] assms(4) unfolding as by auto
qed

section \<open>The local loader and saver behind FileManager\<close>

text \<open>
  The world of the local handlers: the file system, the reads in flight with the callback
  and the io_context of each, the saves in flight (the counter of remaining writes, the
  pending writes with their devices, the callback), and the callbacks posted to an io_context. \<open>uuid\<close> is the
  name a save without a file name makes up.
\<close>

datatype 'e posted =
    Posted_read read_callback nat "'e result_type"
  | Posted_write "'e write_callback" nat

record 'e file_world =
  fw_os :: os
  fw_loads :: "(mnn_load \<times> read_callback \<times> nat) list"
  fw_saves :: "(nat \<times> (string list \<times> bytes) list \<times> file_device list \<times> 'e write_callback \<times> nat) list"
  fw_posted :: "'e posted list"

fun posted_read :: "(mnn_loader_error \<Rightarrow> 'e) \<Rightarrow> read_callback \<Rightarrow> nat \<Rightarrow>
    (mnn_loader_error, unit) act \<Rightarrow> 'e posted list" where
  "posted_read wrap cb ioc (Post_read r _ _) = [Posted_read cb ioc (map_sum wrap (\<lambda>b. b) r)]"
| "posted_read wrap cb ioc _ = []"

fun posted_write :: "'e write_callback \<Rightarrow> nat \<Rightarrow> mnn_act \<Rightarrow> 'e posted list" where
  "posted_write cb ioc Post_write = [Posted_write cb ioc]"
| "posted_write cb ioc _ = []"

text \<open>The calls \<open>loader->LoadASync\<close> and \<open>saver->SaveASync\<close> of the local handlers.\<close>

definition local_load ::
  "(nat \<Rightarrow> error_code) \<Rightarrow> (mnn_loader_error \<Rightarrow> 'e) \<Rightarrow> string \<Rightarrow> bool \<Rightarrow> bool \<Rightarrow> nat \<Rightarrow> read_callback \<Rightarrow>
   'e file_world \<Rightarrow> (exn + string) \<times> 'e file_world" where
  "local_load assign wrap filename parse save ioc cb w =
     (let (msg, ml, as, s1) = MNNLoader_LoadASync assign filename parse save (fw_os w)
      in (Inr msg,
          w\<lparr>fw_os := s1, fw_loads := fw_loads w @ [(ml, cb, ioc)],
            fw_posted := fw_posted w @ concat (map (posted_read wrap cb ioc) as)\<rparr>))"

definition local_save ::
  "(nat \<Rightarrow> error_code) \<Rightarrow> string \<Rightarrow> nat \<Rightarrow> 'e write_callback \<Rightarrow> string \<Rightarrow> 'e result_type \<Rightarrow> string \<Rightarrow>
   nat option \<Rightarrow> 'e file_world \<Rightarrow> (exn + unit) \<times> 'e file_world" where
  "local_save assign uuid ioc cb filename data sfx save_location w =
     (let (r, ms, as) = MNNSaver_SaveASync assign uuid filename data sfx (save_location \<noteq> None) (fw_os w)
      in (r,
          w\<lparr>fw_os := ms_os ms, fw_saves := fw_saves w @ [(ms_remaining ms, ms_writes ms, ms_devices ms, cb, ioc)],
            fw_posted := fw_posted w @ concat (map (posted_write cb ioc) as)\<rparr>))"

text \<open>\<open>other\<close> are the virtual methods of the other handler objects.\<close>

definition file_vtable ::
  "(nat \<Rightarrow> error_code) \<Rightarrow> (mnn_loader_error \<Rightarrow> 'e) \<Rightarrow> string \<Rightarrow>
   (loader_object, 'p, saver_object, 'e file_world, 'e) vtable \<Rightarrow>
   (loader_object, 'p, saver_object, 'e file_world, 'e) vtable" where
  "file_vtable assign wrap uuid other =
     other\<lparr>v_LoadFile := (\<lambda>l n w. if l = MNN_loader then (MNNLoader_LoadFile n (fw_os w), w)
                               else v_LoadFile other l n w),
       v_LoadASync := (\<lambda>l. if l = MNN_loader then local_load assign wrap else v_LoadASync other l),
       v_SaveFile := (\<lambda>v n d w. if v = MNN_saver
                               then (let (r, s1) = MNNSaver_SaveFile n d (fw_os w) in (r, w\<lparr>fw_os := s1\<rparr>))
                               else v_SaveFile other v n d w),
       v_SaveASync := (\<lambda>v. if v = MNN_saver then local_save assign uuid else v_SaveASync other v)\<rparr>"

text \<open>
  What the io_context runs: the handler of the \<open>k\<close>-th read in flight (which destroys the
  \<open>FILEDevice\<close> its lambda owns), the handler of the \<open>i\<close>-th write of the \<open>k\<close>-th save, and
  the first posted callback.
\<close>

datatype file_event = File_read nat error_code bytes | File_write nat nat nat | File_posted

type_synonym ('p, 'e) file_library =
  "(loader_object, 'p, saver_object, 'e file_world, 'e) file_manager"

definition on_file_read ::
  "(loader_object, 'p, saver_object, 'e file_world, 'e) vtable \<Rightarrow> (mnn_loader_error \<Rightarrow> 'e) \<Rightarrow>
   nat \<Rightarrow> error_code \<Rightarrow> bytes \<Rightarrow> ('p, 'e) file_library \<Rightarrow> ('p, 'e) file_library" where
  "on_file_read vt wrap k ec data fm =
     (let w = world fm; (ml, cb, ioc) = fw_loads w ! k;
          (ml', as) = mnn_load_step ml (Mnn_read_done ec data);
          fm1 = deliver vt cb ioc wrap as (fm\<lparr>world := w\<lparr>fw_loads := remove_nth k (fw_loads w)\<rparr>\<rparr>);
          w1 = world fm1
      in fm1\<lparr>world := w1\<lparr>fw_os := destroy_FILEDevice (ml_device ml) (fw_os w1)\<rparr>\<rparr>)"

definition on_file_write ::
  "nat \<Rightarrow> nat \<Rightarrow> nat \<Rightarrow> ('p, 'e) file_library \<Rightarrow> ('p, 'e) file_library" where
  "on_file_write k i n fm =
     (let w = world fm; (remaining, writes, devices, cb, ioc) = fw_saves w ! k;
          (ms, as) = mnn_save_step \<lparr>ms_os = fw_os w, ms_remaining = remaining, ms_writes = writes,
                       ms_devices = devices\<rparr> (Mnn_write_done i n);
          fm1 = fm\<lparr>world := w\<lparr>fw_os := ms_os ms,
                  fw_saves := (fw_saves w)[k := (ms_remaining ms, ms_writes ms, ms_devices ms, cb, ioc)]\<rparr>\<rparr>
      in if Handle_write \<in> set as then handle_write cb ioc fm1 else fm1)"

fun file_step ::
  "(loader_object, 'p, saver_object, 'e file_world, 'e) vtable \<Rightarrow> (mnn_loader_error \<Rightarrow> 'e) \<Rightarrow>
   ('p, 'e) file_library \<Rightarrow> file_event \<Rightarrow> ('p, 'e) file_library" where
  "file_step vt wrap fm (File_read k ec data) =
     (if k < length (fw_loads (world fm)) then on_file_read vt wrap k ec data fm else fm)"
| "file_step vt wrap fm (File_write k i n) =
     (if k < length (fw_saves (world fm)) then on_file_write k i n fm else fm)"
| "file_step vt wrap fm File_posted =
     (case fw_posted (world fm) of
        [] \<Rightarrow> fm
      | Posted_read cb ioc r # ps \<Rightarrow>
          snd (handle_read vt cb ioc r False False (fm\<lparr>world := (world fm)\<lparr>fw_posted := ps\<rparr>\<rparr>))
      | Posted_write cb ioc # ps \<Rightarrow> handle_write cb ioc (fm\<lparr>world := (world fm)\<lparr>fw_posted := ps\<rparr>\<rparr>))"

section \<open>A local load from the URL to the final callback\<close>

lemma MNNLoader_opens:
  assumes "open_read s p = Inr n" and "\<forall>fd. \<not> ec_failed (assign fd)"
  shows "\<exists>ml s'. MNNLoader_LoadASync assign p parse save s = (''init'', ml, [], s') \<and>
    ml_reading ml \<and> ml_filename ml = p \<and> ml_parse ml = parse \<and> ml_save ml = save \<and>
    os_nodes s' = os_nodes s \<and> same_place s s'"
  using assms
  by (auto simp: MNNLoader_LoadASync_def FILEDevice_Open_def posix_open_def FILEDevice_def Let_def same_place_def)

lemma components_file: "components (''file://'' @ p) =
    Inr \<lparr>up_prefix = ''file'', up_base = p, up_extension = extension_of p\<rparr>"
proof -
  have "\<not> sublist ''://'' ''file''" by code_simp
  from components_scheme[OF this, of p] show ?thesis by simp
qed

text \<open>The state in which a load of a file that opens leaves the library.\<close>

lemma file_load_starts:
  assumes "loaders fm ''file'' = Some MNN_loader"
    and "open_read (fw_os (world fm)) p = Inr n" and "\<forall>fd. \<not> ec_failed (assign fd)"
  shows "\<exists>ml s'. LoadASync (file_vtable assign wrap uuid other) (''file://'' @ p) parse save ioc k savetype fm =
      (Inr ''init'', (IncrementOutstandingOperations fm)\<lparr>world := (world fm)\<lparr>fw_os := s',
         fw_loads := fw_loads (world fm) @ [(ml, load_callback (''file://'' @ p) savetype k, ioc)]\<rparr>\<rparr>) \<and>
    ml_reading ml \<and> ml_filename ml = p \<and> ml_parse ml = parse \<and> ml_save ml = save \<and>
    os_nodes s' = os_nodes (fw_os (world fm)) \<and> same_place (fw_os (world fm)) s'"
proof -
  from MNNLoader_opens[OF assms(2,3), of parse save] obtain ml s' where
    l: "MNNLoader_LoadASync assign p parse save (fw_os (world fm)) = (''init'', ml, [], s')"
    and ml: "ml_reading ml" "ml_filename ml = p" "ml_parse ml = parse" "ml_save ml = save"
      "os_nodes s' = os_nodes (fw_os (world fm))" "same_place (fw_os (world fm)) s'" by blast
  from l assms(1) have "LoadASync (file_vtable assign wrap uuid other) (''file://'' @ p) parse save ioc k savetype fm =
      (Inr ''init'', (IncrementOutstandingOperations fm)\<lparr>world := (world fm)\<lparr>fw_os := s',
         fw_loads := fw_loads (world fm) @ [(ml, load_callback (''file://'' @ p) savetype k, ioc)]\<rparr>\<rparr>)"
    by (simp add: LoadASync_def components_file[simplified] file_vtable_def local_load_def
        load_callback_def IncrementOutstandingOperations_def)
  with ml show ?thesis by blast
qed

text \<open>The handler of the read last started, when the file has been read to its end.\<close>

lemma file_step_reads:
  assumes "fw_loads (world fm) = L @ [(ml, cb, ioc)]" and "ml_reading ml"
  shows "file_step vt wrap fm (File_read (length L) ec_eof content) =
    (let fm' = snd (handle_read vt cb ioc (Inr (Some ([path_filename (ml_filename ml)], [content])))
           (ml_parse ml) (ml_save ml) (fm\<lparr>world := (world fm)\<lparr>fw_loads := L\<rparr>\<rparr>))
     in fm'\<lparr>world := (world fm')\<lparr>fw_os := destroy_FILEDevice (ml_device ml) (fw_os (world fm'))\<rparr>\<rparr>)"
  using assms
  by (simp add: on_file_read_def mnn_on_read_def ec_eof_def deliver_def remove_nth_def Let_def)

text \<open>
  C5: with the handlers of the library registered, \<open>LoadASync\<close> on "file://" and the path
  of a file that can be opened counts one operation, and when its read reaches the end of
  the file the application's callback gets the name and the bytes, exactly once, and the
  operation is taken off again: the io_context is stopped when there was no other.
\<close>

theorem file_load_end_to_end:
  assumes "loaders fm ''file'' = Some MNN_loader" and "0 \<le> outstandingOperations fm"
    and "open_read (fw_os (world fm)) p = Inr (Regular content)" and "\<forall>fd. \<not> ec_failed (assign fd)"
    and "LoadASync (file_vtable assign wrap uuid other) (''file://'' @ p) False False ioc k savetype fm = (r, fm1)"
    and "file_step (file_vtable assign wrap uuid other) wrap fm1
           (File_read (length (fw_loads (world fm))) ec_eof content) = fm2"
  shows "r = Inr ''init'' \<and> outstandingOperations fm1 = outstandingOperations fm + 1 \<and>
    finals fm1 = finals fm \<and>
    finals fm2 = finals fm @ [(k, Inr (Some ([path_filename p], [content])))] \<and>
    outstandingOperations fm2 = outstandingOperations fm \<and>
    stopped fm2 = stopped fm @ (if outstandingOperations fm = 0 then [ioc] else [])"
proof -
  from file_load_starts[OF assms(1,3,4), of wrap uuid other False False ioc k savetype] assms(5)
  obtain ml s' where start: "r = Inr ''init''" "fm1 = (IncrementOutstandingOperations fm)\<lparr>world := (world fm)\<lparr>
        fw_os := s', fw_loads := fw_loads (world fm) @ [(ml, load_callback (''file://'' @ p) savetype k, ioc)]\<rparr>\<rparr>"
    and ml: "ml_reading ml" "ml_filename ml = p" "\<not> ml_parse ml" "\<not> ml_save ml" by auto
  have "fm2 = (let fm' = snd (handle_read (file_vtable assign wrap uuid other) (load_callback (''file://'' @ p) savetype k)
        ioc (Inr (Some ([path_filename p], [content]))) False False
        (fm1\<lparr>world := (world fm1)\<lparr>fw_loads := fw_loads (world fm)\<rparr>\<rparr>))
      in fm'\<lparr>world := (world fm')\<lparr>fw_os := destroy_FILEDevice (ml_device ml) (fw_os (world fm'))\<rparr>\<rparr>)"
    using file_step_reads[of fm1 "fw_loads (world fm)" ml _ ioc] start(2) ml assms(6) by simp
  with assms(2) show ?thesis
    by (simp add: start plain_handle_read call_final_def Decrement_nonneg
        IncrementOutstandingOperations_def load_callback_def Let_def)
qed

section \<open>A local load that saves what it has read\<close>

lemma LoadFile_view:
  assumes "same_place s s'" and "\<And>q. node_at s' q = node_at s q"
  shows "MNNLoader_LoadFile f s' = MNNLoader_LoadFile f s"
proof -
  have ref: "os_refuses s' = os_refuses s" using assms(1) by (simp add: same_place_def)
  show ?thesis
    unfolding MNNLoader_LoadFile_def path_exists_def open_read_def assms(2) same_place_resolve[OF assms(1)] ref ..
qed

lemma LoadFile_destroy [simp]: "MNNLoader_LoadFile f (destroy_FILEDevice dev s) = MNNLoader_LoadFile f s"
  by (rule LoadFile_view) simp_all

lemma LoadFile_write_destroy [simp]:
  "MNNLoader_LoadFile f (write_at_start q bs (destroy_FILEDevice dev s)) =
   MNNLoader_LoadFile f (write_at_start q bs s)"
proof (rule LoadFile_view)
  show "same_place (write_at_start q bs s) (write_at_start q bs (destroy_FILEDevice dev s))"
    by (auto simp: write_at_start_def destroy_FILEDevice_def destroy_close_number_def
        destroy_close_stream_def close_fd_def same_place_def split: option.splits node.splits)
qed simp

text \<open>A save of one file under a made-up directory, when everything could be opened.\<close>

lemma single_save_opened:
  assumes "MNNSaver_SaveASync assign uuid [] (Inr (Some ([name], [content]))) sfx False s = (Inr (), ms, [])"
  shows "ms_remaining ms = 1"
    "ms_writes ms = [(resolve_path s (uuid @ ''/'' @ name), content)]"
    "MNNLoader_LoadFile (uuid @ ''/'' @ name)
       (write_at_start (resolve_path s (uuid @ ''/'' @ name)) content (ms_os ms)) = Inr (Some content)"
proof -
  let ?d = "uuid @ ''/''"
  have a: "MNNSaver_SaveASync assign uuid ?d (Inr (Some ([name], [content]))) sfx False s = (Inr (), ms, [])"
    using assms by (simp add: MNNSaver_SaveASync_def)
  from assms obtain bs where loop: "mnn_save_loop assign ?d [name] [content]
      \<lparr>ms_os = s, ms_remaining = 1, ms_writes = [], ms_devices = []\<rparr> = (Inr (), ms, bs)" and "bs = []"
    by (auto simp: MNNSaver_SaveASync_def split: prod.splits)
  with mnn_save_loop_opened[OF loop] show w: "ms_writes ms = [(resolve_path s (uuid @ ''/'' @ name), content)]"
    by (simp add: save_paths_def)
  from loop show r: "ms_remaining ms = 1"
    by (cases rule: mnn_save_loop_Cons_cases) (auto dest: mnn_save_file_cases(1))
  let ?e = "Mnn_write_done 0 (length content)"
  have run: "dev_run mnn_save_step ms [?e] = (ms\<lparr>ms_os := destroy_FILEDevice (ms_devices ms ! 0)
      (write_at_start (resolve_path s (uuid @ ''/'' @ name)) content (ms_os ms)), ms_writes := [],
      ms_devices := drop 1 (ms_devices ms), ms_remaining := 0\<rparr>, [Handle_write])"
    by (simp add: w r Let_def)
  from mnn_saved_file_loads[OF a _ _ _ run, of 0]
  show "MNNLoader_LoadFile (uuid @ ''/'' @ name)
       (write_at_start (resolve_path s (uuid @ ''/'' @ name)) content (ms_os ms)) = Inr (Some content)"
    by (simp add: save_paths_def full_write_def)
qed

text \<open>
  C6: a load from "file://" with the save flag and the local saver as its type: when the
  read reaches the end, the callback gets the file at once while the operation stays
  counted; when the write has finished in full, the file is in the made-up directory
  under its own name, loads back unchanged, and the operation is taken off.
\<close>

theorem file_load_and_save_copies:
  fixes fm :: "('p, 'e) file_library"
  assumes "loaders fm ''file'' = Some MNN_loader" and "savers fm savetype = Some MNN_saver"
    and "0 \<le> outstandingOperations fm"
    and "open_read (fw_os (world fm)) p = Inr (Regular content)" and "\<forall>fd. \<not> ec_failed (assign fd)"
    and "LoadASync (file_vtable assign wrap uuid other) (''file://'' @ p) False True ioc k savetype fm = (r, fm1)"
    and "MNNSaver_SaveASync assign uuid [] (Inr (Some ([path_filename p], [content])) :: 'e result_type)
           (extension_of p) False (fw_os (world fm1)) = (Inr (), ms, [])"
    and "file_step (file_vtable assign wrap uuid other) wrap fm1
           (File_read (length (fw_loads (world fm))) ec_eof content) = fm2"
    and "file_step (file_vtable assign wrap uuid other) wrap fm2
           (File_write (length (fw_saves (world fm))) 0 n) = fm3" and "length content \<le> n"
  shows "finals fm2 = finals fm @ [(k, Inr (Some ([path_filename p], [content])))] \<and>
    outstandingOperations fm2 = outstandingOperations fm + 1 \<and> stopped fm2 = stopped fm \<and>
    finals fm3 = finals fm2 \<and> outstandingOperations fm3 = outstandingOperations fm \<and>
    stopped fm3 = stopped fm @ (if outstandingOperations fm = 0 then [ioc] else []) \<and>
    MNNLoader_LoadFile (uuid @ ''/'' @ path_filename p) (fw_os (world fm3)) = Inr (Some content)"
proof -
  let ?vt = "file_vtable assign wrap uuid other"
  let ?cb = "load_callback (''file://'' @ p) savetype k"
  from file_load_starts[OF assms(1,4,5), of wrap uuid other False True ioc k savetype] assms(6)
  obtain ml s' where start: "fm1 = (IncrementOutstandingOperations fm)\<lparr>world := (world fm)\<lparr>
        fw_os := s', fw_loads := fw_loads (world fm) @ [(ml, ?cb, ioc)]\<rparr>\<rparr>"
    and ml: "ml_reading ml" "ml_filename ml = p" "\<not> ml_parse ml" "ml_save ml" by auto
  have cb: "rc_savetype ?cb = savetype" "rc_suffix ?cb = extension_of p" "rc_finalcall ?cb = k"
    by (simp_all add: load_callback_def components_file[simplified])
  define w2 where "w2 = (world fm)\<lparr>fw_os := destroy_FILEDevice (ml_device ml) (ms_os ms),
      fw_saves := fw_saves (world fm) @ [(ms_remaining ms, ms_writes ms, ms_devices ms, Write_of_load, ioc)]\<rparr>"
  have fm2: "fm2 = call_final k (Inr (Some ([path_filename p], [content])))
      (IncrementOutstandingOperations fm)\<lparr>world := w2\<rparr>"
    using assms(2,7,8) file_step_reads[of fm1 "fw_loads (world fm)" ml ?cb ioc ?vt wrap content] ml cb
    unfolding start
    by (simp add: handle_read_def IncrementOutstandingOperations_def file_vtable_def local_save_def
        call_final_def w2_def Let_def)
  note one = single_save_opened[OF assms(7)]
  let ?os = "destroy_FILEDevice (ms_devices ms ! 0) (write_at_start (fst (hd (ms_writes ms))) content (fw_os w2))"
  have step: "mnn_save_step \<lparr>ms_os = fw_os w2, ms_remaining = 1, ms_writes = ms_writes ms,
        ms_devices = ms_devices ms\<rparr> (Mnn_write_done 0 n) =
      (\<lparr>ms_os = ?os, ms_remaining = 0, ms_writes = [], ms_devices = drop 1 (ms_devices ms)\<rparr>, [Handle_write])"
    using one(2) assms(10) by (simp add: Let_def)
  have fm3: "fm3 = DecrementOutstandingOperations ioc (fm2\<lparr>world := w2\<lparr>
      fw_os := ?os, fw_saves := fw_saves (world fm) @ [(0, [], drop 1 (ms_devices ms), Write_of_load, ioc)]\<rparr>\<rparr>)"
    using assms(9) step
    by (simp add: fm2 w2_def on_file_write_def handle_write_def one(1) call_final_def Let_def
        del: mnn_save_step.simps)
  have world: "world (DecrementOutstandingOperations ioc f) = world f" for f :: "('p, 'e) file_library"
    by (simp add: DecrementOutstandingOperations_def stop_ioc_def Let_def)
  show ?thesis
    using assms(3) one(2,3)
    by (auto simp: fm3 world w2_def LoadFile_write_destroy fm2 call_final_def
        IncrementOutstandingOperations_def Decrement_nonneg)
qed

section \<open>Witnesses\<close>

definition counting :: "int \<Rightarrow> (unit, unit, unit, unit, nat) file_manager" where
  "counting n = \<lparr>loaders = Map.empty, parsers = Map.empty, savers = Map.empty,
     outstandingOperations = n, cacheDir = [], stopped = [], finals = [], world = ()\<rparr>"

definition sample_callback :: read_callback where
  "sample_callback = \<lparr>rc_savetype = ''file'', rc_suffix = ''bin'', rc_finalcall = 7\<rparr>"

lemma http_load_ends_operation_witness:
  "outstandingOperations (deliver accepting_handlers sample_callback 0 (\<lambda>_. 0)
     ([] @ snd (dev_run http_step (connecting_run (HTTPDevice ''h'' ''/d/f.bin'' ''443'' False False))
        [Op_completes \<lparr>ec_value = 111, ec_category = System_category\<rparr> [], Op_handler])) (counting 1)) = 0"
proof -
  let ?run = "dev_run http_step (connecting_run (HTTPDevice ''h'' ''/d/f.bin'' ''443'' False False))
        [Op_completes \<lparr>ec_value = 111, ec_category = System_category\<rparr> [], Op_handler]"
  have l: "HTTPLoader_LoadASync sample_resolve (\<lambda>_. None) ''h/d/f.bin'' False False =
     Inr (''test'', connecting_run (HTTPDevice ''h'' ''/d/f.bin'' ''443'' False False), [])"
    by code_simp
  have e: "hr_op (fst ?run) = None" by code_simp
  from http_load_ends_operation[OF l prod.collapse[symmetric, of ?run] e, of "counting 1" accepting_handlers
      sample_callback 0 "\<lambda>_. 0"]
  show ?thesis by (auto simp: l counting_def simp del: dev_run.simps)
qed

lemma ws_failed_resolve_ends_two_operations_witness:
  "stopped (deliver accepting_handlers sample_callback 3 (\<lambda>_. 0)
     (snd (StartWSDownload no_resolve sample_ws) @
      snd (dev_run ws_step (fst (StartWSDownload no_resolve sample_ws)) [Ws_completes ec_success [], Ws_handler]))
     (counting 2)) = [3]"
proof -
  let ?s = "StartWSDownload no_resolve sample_ws"
  let ?run = "dev_run ws_step (fst ?s) [Ws_completes ec_success [], Ws_handler]"
  from ws_failed_resolve_ends_two_operations[OF refl prod.collapse[symmetric, of ?s]
      prod.collapse[symmetric, of ?run], of "counting 2" accepting_handlers sample_callback 3 "\<lambda>_. 0"]
  show ?thesis by (simp add: counting_def del: dev_run.simps)
qed

definition sample_files :: "(parser_object, unit) file_library" where
  "sample_files = snd (InitializeSingletons (start_of_program
     \<lparr>fw_os = put_node [''d'', ''f''] (Regular ''hi'') empty_os, fw_loads = [], fw_saves = [], fw_posted = []\<rparr>))"

lemma sample_files_ready:
  "loaders sample_files ''file'' = Some MNN_loader" "savers sample_files ''file'' = Some MNN_saver"
  "outstandingOperations sample_files = 0" "stopped sample_files = []" "finals sample_files = []"
  "open_read (fw_os (world sample_files)) ''/d/f'' = Inr (Regular ''hi'')"
  "fw_loads (world sample_files) = []" "fw_saves (world sample_files) = []"
  by (simp_all add: sample_files_def init_defs init_register_defs start_of_program_def os_eval)

abbreviation (input) sample_vtable ::
  "(loader_object, parser_object, saver_object, unit file_world, unit) vtable" where
  "sample_vtable \<equiv> file_vtable (\<lambda>_. ec_success) (\<lambda>_. ()) ''u'' accepting_handlers"

lemma file_load_end_to_end_witness:
  "finals (file_step sample_vtable (\<lambda>_. ())
     (snd (LoadASync sample_vtable (''file://'' @ ''/d/f'') False False 4 7 ''file'' sample_files))
     (File_read 0 ec_eof ''hi'')) = [(7, Inr (Some ([''f''], [''hi''])))]"
proof -
  have "path_filename ''/d/f'' = ''f''" by code_simp
  with file_load_end_to_end[OF sample_files_ready(1) _ sample_files_ready(6) _
      prod.collapse[symmetric, of "LoadASync sample_vtable (''file://'' @ ''/d/f'') False False 4 7 ''file'' sample_files"] refl]
  show ?thesis by (simp add: sample_files_ready)
qed

definition sample_loaded :: "(exn + string) \<times> (parser_object, unit) file_library" where
  "sample_loaded = LoadASync sample_vtable (''file://'' @ ''/d/f'') False True 4 7 ''file'' sample_files"

lemma sample_loaded_os:
  "fw_os (world (snd sample_loaded)) = (put_node [''d'', ''f''] (Regular ''hi'') empty_os)\<lparr>os_fds := [3, 2, 1, 0]\<rparr>"
  by (simp add: sample_loaded_def LoadASync_def components_file[of "''/d/f''", simplified] sample_files_ready
      file_vtable_def local_load_def MNNLoader_LoadASync_def IncrementOutstandingOperations_def Let_def)
    (simp add: sample_files_def init_defs init_register_defs start_of_program_def os_eval free_fd_def)

lemma file_load_and_save_copies_witness:
  "MNNLoader_LoadFile ''u/f'' (fw_os (world
     (file_step sample_vtable (\<lambda>_. ()) (file_step sample_vtable (\<lambda>_. ()) (snd sample_loaded)
        (File_read 0 ec_eof ''hi'')) (File_write 0 0 2)))) = Inr (Some ''hi'')"
proof -
  have name: "path_filename ''/d/f'' = ''f''" by code_simp
  let ?save = "MNNSaver_SaveASync (\<lambda>_. ec_success) ''u'' []
    (Inr (Some ([path_filename ''/d/f''], [''hi''])) :: unit result_type) (extension_of ''/d/f'') False
    (fw_os (world (snd sample_loaded)))"
  have "fst ?save = Inr ()" "snd (snd ?save) = []"
    by (simp_all add: sample_loaded_os name MNNSaver_SaveASync_def mnn_save_file_def os_eval Let_def)
  then have save: "?save = (Inr (), fst (snd ?save), [])" by (metis prod.collapse)
  have load: "LoadASync sample_vtable (''file://'' @ ''/d/f'') False True 4 7 ''file'' sample_files =
      (fst sample_loaded, snd sample_loaded)" by (simp add: sample_loaded_def)
  from file_load_and_save_copies[OF sample_files_ready(1,2) _ sample_files_ready(6) _ load save refl refl]
  show ?thesis by (simp add: sample_files_ready name)
qed

end
