(* ===== verification/ConcurrentLoads.thy ===== *)
theory ConcurrentLoads
  imports Delivery "HOL-Library.Multiset"
begin

text \<open>
  Any number of loads at the same time, over https and of local files: the application calls
  \<open>FileManager::LoadASync\<close> with any URLs, one io_context runs the handlers of all the devices
  in any order, and exceptions are caught by the application.
\<close>

section \<open>The two devices\<close>

datatype device_run = Http_run http_run | Mnn_run mnn_load

datatype device_event = Http_event http_event | Mnn_event mnn_read_event

fun device_step ::
  "(http_failure \<Rightarrow> 'e) \<Rightarrow> (mnn_loader_error \<Rightarrow> 'e) \<Rightarrow> device_run \<Rightarrow> device_event \<Rightarrow>
   device_run \<times> ('e, unit) act list" where
  "device_step wh wm (Http_run s) (Http_event e) =
     (let (s', as) = http_step s e in (Http_run s', map (map_act wh (\<lambda>_. ())) as))"
| "device_step wh wm (Mnn_run ml) (Mnn_event e) =
     (let (ml', as) = mnn_load_step ml e in (Mnn_run ml', map (map_act wm (\<lambda>_. ())) as))"
| "device_step wh wm s _ = (s, [])"

fun device_live :: "device_run \<Rightarrow> bool" where
  "device_live (Http_run s) = http_live s"
| "device_live (Mnn_run ml) = ml_reading ml"

text \<open>The handler of a read owns the \<open>FILEDevice\<close>, which is destroyed with it.\<close>

fun release_device :: "device_run \<Rightarrow> device_run \<Rightarrow> 'x os_scheme \<Rightarrow> 'x os_scheme" where
  "release_device (Mnn_run ml) s' os =
     (if ml_reading ml \<and> \<not> device_live s' then destroy_FILEDevice (ml_device ml) os else os)"
| "release_device _ s' os = os"

lemma completion_map_act [simp]: "completion (map_act f g a) = completion a"
  by (cases a) simp_all

lemma completions_map_act [simp]: "completions (map (map_act f g) as) = completions as"
  by (induction as) simp_all

lemma plain_map_act [simp]: "plain_read (map_act f g a) = plain_read a"
  by (cases a) simp_all

interpretation device: one_shot "device_step wh wm" "\<lambda>_. True" device_live
proof unfold_locales
  fix s e s' and as :: "('a, unit) act list"
  show True by simp
  show "device_live s \<Longrightarrow> device_step wh wm s e = (s', as) \<Longrightarrow>
      completions as = (if device_live s' then 0 else 1)"
    using http.live_step[OF TrueI] mnn_read.live_step[OF TrueI]
    by (cases "(wh, wm, s, e)" rule: device_step.cases) (force split: prod.splits)+
  show "\<not> device_live s \<Longrightarrow> device_step wh wm s e = (s', as) \<Longrightarrow>
      \<not> device_live s' \<and> completions as = 0"
    using http.dead_step[OF TrueI] mnn_read.dead_step[OF TrueI]
    by (cases "(wh, wm, s, e)" rule: device_step.cases) (force split: prod.splits)+
qed

section \<open>The loaders behind FileManager\<close>

text \<open>
  The world is the file system and the list of the loads started so far: the device's run,
  the completions it has posted and that have not run yet, the callback, the io_context.
\<close>

type_synonym 'e load_entry = "device_run \<times> ('e, unit) act list \<times> read_callback \<times> nat"

record 'e loads_world =
  lw_os :: os
  lw_entries :: "'e load_entry list"

type_synonym ('p, 'e) loads_library =
  "(loader_object, 'p, saver_object, 'e loads_world, 'e) file_manager"

definition add_entry :: "'e load_entry \<Rightarrow> 'e loads_world \<Rightarrow> 'e loads_world" where
  "add_entry x w = w\<lparr>lw_entries := lw_entries w @ [x]\<rparr>"

definition loads_vtable ::
  "(http_failure \<Rightarrow> 'e) \<Rightarrow> (mnn_loader_error \<Rightarrow> 'e) \<Rightarrow> (string \<Rightarrow> string \<Rightarrow> exn + 'ep) \<Rightarrow> (string \<Rightarrow> string option) \<Rightarrow>
   (nat \<Rightarrow> error_code) \<Rightarrow> (loader_object, 'p, saver_object, 'e loads_world, 'e) vtable \<Rightarrow>
   (loader_object, 'p, saver_object, 'e loads_world, 'e) vtable" where
  "loads_vtable wh wm resolve sni assign other =
     other\<lparr>v_LoadASync := (\<lambda>l filename parse save ioc cb w.
        if l = HTTP_loader then
          (case HTTPLoader_LoadASync resolve sni filename parse save of
             Inl e \<Rightarrow> (Inl e, w)
           | Inr (msg, s, as) \<Rightarrow>
               (Inr msg, add_entry (Http_run s, map (map_act wh (\<lambda>_. ())) as, cb, ioc) w))
        else if l = MNN_loader then
          (let (msg, ml, as, s1) = MNNLoader_LoadASync assign filename parse save (lw_os w)
           in (Inr msg, add_entry (Mnn_run ml, map (map_act wm (\<lambda>_. ())) as, cb, ioc) (w\<lparr>lw_os := s1\<rparr>)))
        else v_LoadASync other l filename parse save ioc cb w)\<rparr>"

text \<open>
  The application starts a plain load of a URL, an event happens to the \<open>i\<close>-th load, or its
  posted completion runs. With the file manager goes the number of operations that an
  exception has left counted and without an owner.
\<close>

datatype loads_event = App_load string nat nat | Device_event nat device_event | Posted_run nat

fun loads_step ::
  "(loader_object, 'p, saver_object, 'e loads_world, 'e) vtable \<Rightarrow> (http_failure \<Rightarrow> 'e) \<Rightarrow>
   (mnn_loader_error \<Rightarrow> 'e) \<Rightarrow> loads_event \<Rightarrow> nat \<times> ('p, 'e) loads_library \<Rightarrow>
   nat \<times> ('p, 'e) loads_library" where
  "loads_step vt wh wm (App_load url ioc k) (leaked, fm) =
     (case LoadASync vt url False False ioc k [] fm of
        (Inr _, fm1) \<Rightarrow> (leaked, fm1)
      | (Inl _, fm1) \<Rightarrow> (leaked + nat (outstandingOperations fm1 - outstandingOperations fm), fm1))"
| "loads_step vt wh wm (Device_event i e) (leaked, fm) =
     (if i < length (lw_entries (world fm)) then
        let w = world fm; (s, ps, cb, ioc) = lw_entries w ! i; (s', as) = device_step wh wm s e;
            fm1 = deliver vt cb ioc id as (fm\<lparr>world := w\<lparr>lw_entries := (lw_entries w)[i := (s', ps, cb, ioc)]\<rparr>\<rparr>);
            w1 = world fm1
        in (leaked, fm1\<lparr>world := w1\<lparr>lw_os := release_device s s' (lw_os w1)\<rparr>\<rparr>)
      else (leaked, fm))"
| "loads_step vt wh wm (Posted_run i) (leaked, fm) =
     (if i < length (lw_entries (world fm)) then
        let w = world fm; (s, ps, cb, ioc) = lw_entries w ! i
        in (leaked, deliver vt cb ioc id ps
              (fm\<lparr>world := w\<lparr>lw_entries := (lw_entries w)[i := (s, [], cb, ioc)]\<rparr>\<rparr>))
      else (leaked, fm))"

definition loads_run ::
  "(loader_object, 'p, saver_object, 'e loads_world, 'e) vtable \<Rightarrow> (http_failure \<Rightarrow> 'e) \<Rightarrow>
   (mnn_loader_error \<Rightarrow> 'e) \<Rightarrow> loads_event list \<Rightarrow> nat \<times> ('p, 'e) loads_library \<Rightarrow>
   nat \<times> ('p, 'e) loads_library" where
  "loads_run vt wh wm es s = fold (loads_step vt wh wm) es s"

section \<open>The counter and the loads\<close>

text \<open>A load that has not reported yet, their number, and the final callbacks of the others.\<close>

fun unreported :: "'e load_entry \<Rightarrow> bool" where
  "unreported (s, ps, cb, ioc) \<longleftrightarrow> device_live s \<or> ps \<noteq> []"

definition unreported_count :: "'e load_entry list \<Rightarrow> nat" where
  "unreported_count w = length (filter unreported w)"

fun callback_of :: "'e load_entry \<Rightarrow> nat" where
  "callback_of (s, ps, cb, ioc) = rc_finalcall cb"

definition reported_callbacks :: "'e load_entry list \<Rightarrow> nat multiset" where
  "reported_callbacks w = image_mset callback_of (filter_mset (\<lambda>x. \<not> unreported x) (mset w))"

lemma reported_callbacks_simps [simp]:
  "reported_callbacks [] = {#}"
  "reported_callbacks (w @ [x]) =
     (if unreported x then reported_callbacks w else add_mset (callback_of x) (reported_callbacks w))"
  by (simp_all add: reported_callbacks_def)

text \<open>Reporting an entry, and changing one that keeps its status.\<close>

lemma reported_callbacks_update:
  assumes "i < length w" and "callback_of y = callback_of (w ! i)" and "unreported y \<longrightarrow> unreported (w ! i)"
  shows "reported_callbacks (w[i := y]) = reported_callbacks w +
    (if unreported (w ! i) \<and> \<not> unreported y then {#callback_of y#} else {#})"
proof -
  obtain M where M: "mset w = add_mset (w ! i) M"
    using assms(1) by (metis mset_add nth_mem_mset)
  then have "mset (w[i := y]) = add_mset y M" using assms(1) by (simp add: mset_update)
  with M assms(2,3) show ?thesis by (auto simp: reported_callbacks_def)
qed

text \<open>An entry asks to parse and save nothing, and owes one report while it is unreported.\<close>

fun device_plain :: "device_run \<Rightarrow> bool" where
  "device_plain (Http_run s) = http_plain s"
| "device_plain (Mnn_run ml) \<longleftrightarrow> \<not> ml_parse ml \<and> \<not> ml_save ml"

fun entry_ok :: "'e load_entry \<Rightarrow> bool" where
  "entry_ok (s, ps, cb, ioc) \<longleftrightarrow> device_plain s \<and> (\<forall>a\<in>set ps. plain_read a) \<and>
     (if device_live s then ps = [] else ps = [] \<or> length (results ps) = 1)"

lemma device_step_plain:
  assumes "device_step wh wm s e = (s', as)" and "device_plain s"
  shows "device_plain s'" "\<forall>a\<in>set as. plain_read a"
proof -
  have "device_plain s' \<and> (\<forall>a\<in>set as. plain_read a)"
  proof (cases "(wh, wm, s, e)" rule: device_step.cases)
    case (1 _ _ h ev)
    obtain h' bs where st: "http_step h ev = (h', bs)" by force
    with 1 assms http_step_plain[OF st] show ?thesis by auto
  next
    case (2 _ _ ml ev)
    with assms show ?thesis by (cases ev) (auto simp: mnn_on_read_def split: if_splits)
  qed (use assms in auto)
  then show "device_plain s'" "\<forall>a\<in>set as. plain_read a" by blast+
qed

definition loads_inv :: "nat \<times> ('p, 'e) loads_library \<Rightarrow> bool" where
  "loads_inv st \<longleftrightarrow> (case st of (leaked, fm) \<Rightarrow>
     ran (loaders fm) \<subseteq> {HTTP_loader, MNN_loader} \<and>
     (\<forall>x\<in>set (lw_entries (world fm)). entry_ok x) \<and>
     outstandingOperations fm = int (unreported_count (lw_entries (world fm)) + leaked) \<and>
     mset (map fst (finals fm)) = reported_callbacks (lw_entries (world fm)))"

lemma deliver_keeps:
  assumes "\<forall>a\<in>set as. plain_read a"
  shows "world (deliver vt cb ioc wrap as fm) = world fm"
    "loaders (deliver vt cb ioc wrap as fm) = loaders fm"
proof -
  have "world (deliver vt cb ioc wrap as fm) = world fm \<and> loaders (deliver vt cb ioc wrap as fm) = loaders fm"
    using assms
  proof (induction as arbitrary: fm)
    case (Cons a as)
    have "world (deliver_read vt cb ioc wrap a fm) = world fm \<and>
        loaders (deliver_read vt cb ioc wrap a fm) = loaders fm"
      using Cons.prems by (cases a) (auto simp: plain_handle_read call_final_def
          DecrementOutstandingOperations_def stop_ioc_def Let_def)
    with Cons show ?case by (simp add: deliver_def)
  qed (simp add: deliver_def)
  then show "world (deliver vt cb ioc wrap as fm) = world fm"
    "loaders (deliver vt cb ioc wrap as fm) = loaders fm" by blast+
qed

text \<open>
  One load changes and reports what its entry owed: the invariant is kept, and the context
  is stopped exactly when this was the last report outstanding and nothing has leaked.
\<close>

lemma report_keeps_inv:
  assumes "loads_inv (leaked, fm)" and "i < length (lw_entries (world fm))"
    and "lw_entries (world fm) ! i = (s, ps, cb, ioc)"
    and "entry_ok (s', ps', cb, ioc)" and "\<forall>a\<in>set as. plain_read a"
    and "length (results as) + (if unreported (s', ps', cb, ioc) then 1 else 0) =
      (if unreported (s, ps, cb, ioc) then 1 else 0)"
    and "fm' = deliver vt cb ioc id as
      (fm\<lparr>world := (world fm)\<lparr>lw_entries := (lw_entries (world fm))[i := (s', ps', cb, ioc)]\<rparr>\<rparr>)"
  shows "loads_inv (leaked, fm')"
    "stopped fm' = stopped fm @ (if leaked = 0 \<and> unreported_count (lw_entries (world fm)) \<noteq> 0 \<and>
        unreported_count (lw_entries (world fm')) = 0 then [ioc] else [])"
proof -
  let ?w = "lw_entries (world fm)" and ?y = "(s', ps', cb, ioc)"
  let ?fm1 = "fm\<lparr>world := (world fm)\<lparr>lw_entries := ?w[i := ?y]\<rparr>\<rparr>"
  have inv: "ran (loaders fm) \<subseteq> {HTTP_loader, MNN_loader}"
    "\<forall>x\<in>set ?w. entry_ok x" "outstandingOperations fm = int (unreported_count ?w + leaked)"
    "mset (map fst (finals fm)) = reported_callbacks ?w"
    using assms(1) by (simp_all add: loads_inv_def)
  have "0 \<le> outstandingOperations ?fm1" using inv(3) by simp
  note d = deliver_plain[OF assms(5) this, of vt cb ioc id]
  have w: "lw_entries (world fm') = ?w[i := ?y]" and l: "loaders fm' = loaders fm"
    using deliver_keeps[OF assms(5), of vt cb ioc id ?fm1] assms(7) by simp_all
  have cnt: "unreported_count (lw_entries (world fm')) + (if unreported (?w ! i) then 1 else 0) =
      unreported_count ?w + (if unreported ?y then 1 else 0)"
    unfolding w unreported_count_def by (rule length_filter_update[OF assms(2)])
  have ok: "\<forall>x\<in>set (lw_entries (world fm')). entry_ok x"
    using inv(2) assms(4) set_update_subset_insert[of ?w i ?y] unfolding w by blast
  have "mset (map fst (finals fm')) = reported_callbacks ?w +
      replicate_mset (length (results as)) (rc_finalcall cb)"
    using d inv(4) assms(7) by (simp add: comp_def map_replicate_const)
  also have "\<dots> = reported_callbacks (lw_entries (world fm'))"
    unfolding w using reported_callbacks_update[OF assms(2), of ?y] assms(3,6)
    by (auto simp del: unreported.simps split: if_splits)
  finally have fin: "mset (map fst (finals fm')) = reported_callbacks (lw_entries (world fm'))" .
  have out: "outstandingOperations fm' = int (unreported_count (lw_entries (world fm')) + leaked)"
    using d assms(3,6,7) cnt inv(3) by (auto simp del: unreported.simps split: if_splits)
  show "loads_inv (leaked, fm')" using inv(1) l ok out fin by (simp add: loads_inv_def)
  show "stopped fm' = stopped fm @ (if leaked = 0 \<and> unreported_count ?w \<noteq> 0 \<and>
        unreported_count (lw_entries (world fm')) = 0 then [ioc] else [])"
    using d assms(3,6,7) cnt inv(3) by (auto simp del: unreported.simps split: if_splits)
qed

lemma loads_inv_os:
  "loads_inv (leaked, fm\<lparr>world := (world fm)\<lparr>lw_os := s\<rparr>\<rparr>) \<longleftrightarrow> loads_inv (leaked, fm)"
  by (simp add: loads_inv_def)

section \<open>Starting a load\<close>

lemma http_start_entry:
  assumes "HTTPLoader_LoadASync resolve sni p False False = Inr (msg, s, as)"
  shows "entry_ok (Http_run s, map (map_act wh (\<lambda>_. ())) as, cb, ioc) \<and>
    unreported (Http_run s, map (map_act wh (\<lambda>_. ())) as, cb, ioc)"
proof -
  let ?as = "map (map_act wh (\<lambda>_. ())) as"
  have live: "http_live s \<Longrightarrow> as = []" using assms
    by (auto simp: HTTPLoader_LoadASync_def StartHTTPDownload_def Let_def ArmDeadline_def begin_op_def
        split: option.splits if_splits sum.splits)
  have plain: "\<forall>a\<in>set ?as. plain_read a" and p: "http_plain s" using http_load_plain[OF assms] by auto
  from LoadASync_starts[OF assms] length_results[OF plain]
  have "length (results ?as) = (if http_live s then 0 else 1)" by simp
  with live plain p show ?thesis by (cases "as = []") (auto split: if_splits)
qed

lemma mnn_start_entry:
  assumes "MNNLoader_LoadASync assign p False False s = (msg, ml, as, s1)"
  shows "entry_ok (Mnn_run ml, map (map_act wm (\<lambda>_. ())) as, cb, ioc) \<and>
    unreported (Mnn_run ml, map (map_act wm (\<lambda>_. ())) as, cb, ioc)"
  using assms by (auto simp: MNNLoader_LoadASync_def Let_def split: prod.splits if_splits)

text \<open>The call of the loader throws and starts nothing, or adds one load that owes a report.\<close>

lemma loader_call:
  assumes "l \<in> {HTTP_loader, MNN_loader}"
    and "v_LoadASync (loads_vtable wh wm resolve sni assign other) l p False False ioc cb w = (r, w')"
  shows "isl r \<and> w' = w \<or> \<not> isl r \<and>
    (\<exists>x. lw_entries w' = lw_entries w @ [x] \<and> entry_ok x \<and> unreported x)"
proof (cases "l = HTTP_loader")
  case True
  show ?thesis
  proof (cases "HTTPLoader_LoadASync resolve sni p False False")
    case (Inl e)
    with True assms(2) show ?thesis by (auto simp: loads_vtable_def)
  next
    case (Inr t)
    then obtain msg s as where l: "HTTPLoader_LoadASync resolve sni p False False = Inr (msg, s, as)"
      by (metis prod_cases3)
    with True assms(2) http_start_entry[OF l, of wh cb ioc] show ?thesis
      by (auto simp: loads_vtable_def add_entry_def simp del: entry_ok.simps unreported.simps)
  qed
next
  case False
  obtain msg ml as s1 where l: "MNNLoader_LoadASync assign p False False (lw_os w) = (msg, ml, as, s1)"
    by (metis prod_cases4)
  with False assms mnn_start_entry[OF l, of wm cb ioc] show ?thesis
    by (auto simp: loads_vtable_def add_entry_def simp del: entry_ok.simps unreported.simps)
qed

lemma load_keeps_inv:
  assumes "loads_inv (leaked, fm)"
    and "loads_step (loads_vtable wh wm resolve sni assign other) wh wm (App_load url ioc k) (leaked, fm) =
      (leaked', fm')"
  shows "loads_inv (leaked', fm') \<and> stopped fm' = stopped fm \<and>
    unreported_count (lw_entries (world fm)) \<le> unreported_count (lw_entries (world fm'))"
proof -
  let ?vt = "loads_vtable wh wm resolve sni assign other"
  obtain p where p: "components url = Inr p" using components_returns by blast
  show ?thesis
  proof (cases "loaders fm (up_prefix p)")
    case None
    with assms p show ?thesis by (auto simp: LoadASync_def)
  next
    case (Some l)
    let ?cb = "\<lparr>rc_savetype = [], rc_suffix = up_extension p, rc_finalcall = k\<rparr>"
    have l: "l \<in> {HTTP_loader, MNN_loader}" using assms(1) Some by (auto simp: loads_inv_def intro: ranI dest!: subsetD[of "ran (loaders fm)" _ l])
    obtain r w where call: "v_LoadASync ?vt l (up_base p) False False ioc ?cb (world fm) = (r, w)" by force
    have load: "LoadASync ?vt url False False ioc k [] fm =
        (r, (IncrementOutstandingOperations fm)\<lparr>world := w\<rparr>)"
      using p Some call by (simp add: LoadASync_def IncrementOutstandingOperations_def)
    from loader_call[OF l call] show ?thesis
      using assms load by (auto simp: loads_inv_def IncrementOutstandingOperations_def
          unreported_count_def split: sum.splits simp del: entry_ok.simps unreported.simps)
  qed
qed

lemma entry_in_range:
  "loads_inv (leaked, fm) \<Longrightarrow> i < length (lw_entries (world fm)) \<Longrightarrow> entry_ok (lw_entries (world fm) ! i)"
  by (auto simp: loads_inv_def)

lemma device_event_keeps_inv:
  assumes "loads_inv (leaked, fm)" and "i < length (lw_entries (world fm))"
    and "loads_step vt wh wm (Device_event i e) (leaked, fm) = (leaked', fm')"
  shows "loads_inv (leaked', fm') \<and> leaked' = leaked \<and> (stopped fm' \<noteq> stopped fm \<longleftrightarrow> leaked = 0 \<and>
    unreported_count (lw_entries (world fm)) \<noteq> 0 \<and> unreported_count (lw_entries (world fm')) = 0)"
proof -
  let ?w = "lw_entries (world fm)"
  obtain s ps cb ioc where x: "?w ! i = (s, ps, cb, ioc)" by (metis prod_cases4)
  obtain s' as where st: "device_step wh wm s e = (s', as)" by force
  let ?fm1 = "deliver vt cb ioc id as (fm\<lparr>world := (world fm)\<lparr>lw_entries := ?w[i := (s', ps, cb, ioc)]\<rparr>\<rparr>)"
  have fm': "fm' = ?fm1\<lparr>world := (world ?fm1)\<lparr>lw_os := release_device s s' (lw_os (world ?fm1))\<rparr>\<rparr>"
    and leaked: "leaked' = leaked"
    using assms(2,3) x st by (auto simp: Let_def)
  have ok: "entry_ok (s, ps, cb, ioc)" using entry_in_range[OF assms(1,2)] unfolding x .
  have plain: "\<forall>a\<in>set as. plain_read a" and p': "device_plain s'"
    using device_step_plain[OF st] ok by auto
  have n: "length (results as) = (if device_live s then if device_live s' then 0 else 1 else 0)"
      "\<not> device_live s \<Longrightarrow> \<not> device_live s'"
    using length_results[OF plain] device.live_step[OF TrueI _ st] device.dead_step[OF TrueI _ st] by auto
  have y: "entry_ok (s', ps, cb, ioc)" using ok p' n by (auto split: if_splits)
  have owed: "length (results as) + (if unreported (s', ps, cb, ioc) then 1 else 0) =
      (if unreported (s, ps, cb, ioc) then 1 else 0)"
    using n ok by (auto split: if_splits)
  from report_keeps_inv[OF assms(1,2) x y plain owed refl] show ?thesis
    unfolding fm' leaked loads_inv_os by simp
qed

lemma posted_keeps_inv:
  assumes "loads_inv (leaked, fm)" and "i < length (lw_entries (world fm))"
    and "loads_step vt wh wm (Posted_run i) (leaked, fm) = (leaked', fm')"
  shows "loads_inv (leaked', fm') \<and> leaked' = leaked \<and> (stopped fm' \<noteq> stopped fm \<longleftrightarrow> leaked = 0 \<and>
    unreported_count (lw_entries (world fm)) \<noteq> 0 \<and> unreported_count (lw_entries (world fm')) = 0)"
proof -
  let ?w = "lw_entries (world fm)"
  obtain s ps cb ioc where x: "?w ! i = (s, ps, cb, ioc)" by (metis prod_cases4)
  have fm': "fm' = deliver vt cb ioc id ps (fm\<lparr>world := (world fm)\<lparr>lw_entries := ?w[i := (s, [], cb, ioc)]\<rparr>\<rparr>)"
    and leaked: "leaked' = leaked"
    using assms(2,3) x by (auto simp: Let_def)
  have ok: "entry_ok (s, ps, cb, ioc)" using entry_in_range[OF assms(1,2)] unfolding x .
  then have y: "entry_ok (s, [], cb, ioc)" and plain: "\<forall>a\<in>set ps. plain_read a" by auto
  have owed: "length (results ps) + (if unreported (s, [], cb, ioc) then 1 else 0) =
      (if unreported (s, ps, cb, ioc) then 1 else 0)"
    using ok by (auto split: if_splits)
  from report_keeps_inv[OF assms(1,2) x y plain owed fm'] show ?thesis unfolding leaked by simp
qed

lemma loads_step_keeps:
  assumes "loads_inv st"
    and "st' = loads_step (loads_vtable wh wm resolve sni assign other) wh wm e st"
  shows "loads_inv st' \<and> (stopped (snd st') \<noteq> stopped (snd st) \<longleftrightarrow> fst st = 0 \<and>
    unreported_count (lw_entries (world (snd st))) \<noteq> 0 \<and>
    unreported_count (lw_entries (world (snd st'))) = 0)"
proof -
  obtain leaked fm where st: "st = (leaked, fm)" by force
  obtain leaked' fm' where st': "st' = (leaked', fm')" by force
  show ?thesis
  proof (cases e)
    case (App_load url ioc k)
    with load_keeps_inv[of leaked fm] assms st st' show ?thesis by (metis fst_conv le_zero_eq snd_conv)
  next
    case (Device_event i ev)
    with device_event_keeps_inv[of leaked fm i] assms st st' show ?thesis
      by (cases "i < length (lw_entries (world fm))") (metis fst_conv snd_conv, auto)
  next
    case (Posted_run i)
    with posted_keeps_inv[of leaked fm i] assms st st' show ?thesis
      by (cases "i < length (lw_entries (world fm))") (metis fst_conv snd_conv, auto)
  qed
qed

lemma loads_run_keeps:
  assumes "loads_inv st"
  shows "loads_inv (loads_run (loads_vtable wh wm resolve sni assign other) wh wm es st)"
  using assms
proof (induction es arbitrary: st)
  case (Cons e es)
  have "loads_inv (loads_step (loads_vtable wh wm resolve sni assign other) wh wm e st)"
    using loads_step_keeps[OF Cons.prems refl] by blast
  from Cons.IH[OF this] show ?case by (simp add: loads_run_def)
qed (simp add: loads_run_def)

text \<open>
  C4: any number of plain loads, over https and of local files, with any URLs, may be started
  and their handlers interleaved in any order, whatever the networks, timers, files and
  resolvers do. At every moment the counter is the number of loads that have not reported
  plus the number of calls that threw after they had been counted; the final callbacks
  called so far are those of the other loads, once each; and a step stops the io_context
  exactly when it brings the last outstanding report and no operation has leaked.
\<close>

theorem concurrent_loads:
  assumes "ran (loaders fm) \<subseteq> {HTTP_loader, MNN_loader}"
    and "outstandingOperations fm = 0" and "lw_entries (world fm) = []" and "finals fm = []"
    and "(leaked, fm') = loads_run (loads_vtable wh wm resolve sni assign other) wh wm es (0, fm)"
    and "(leaked', fm'') = loads_step (loads_vtable wh wm resolve sni assign other) wh wm e (leaked, fm')"
  shows "outstandingOperations fm' = int (unreported_count (lw_entries (world fm')) + leaked) \<and>
    mset (map fst (finals fm')) = reported_callbacks (lw_entries (world fm')) \<and>
    (stopped fm'' \<noteq> stopped fm' \<longleftrightarrow> leaked = 0 \<and>
       unreported_count (lw_entries (world fm')) \<noteq> 0 \<and> unreported_count (lw_entries (world fm'')) = 0)"
proof -
  have "loads_inv (0, fm)" using assms(1-4) by (simp add: loads_inv_def unreported_count_def)
  from loads_run_keeps[OF this] assms(5) have inv: "loads_inv (leaked, fm')" by metis
  with loads_step_keeps[OF inv assms(6)] show ?thesis by (simp add: loads_inv_def)
qed

text \<open>
  A load over https in progress, one whose URL is rejected and has been reported, one of a
  file that does not exist whose report is posted, and a URL without a loader.
\<close>

definition loads_sample :: "(unit, unit) loads_library" where
  "loads_sample = \<lparr>loaders = [''https'' \<mapsto> HTTP_loader, ''file'' \<mapsto> MNN_loader], parsers = Map.empty,
     savers = Map.empty, outstandingOperations = 0, cacheDir = [], stopped = [], finals = [],
     world = \<lparr>lw_os = \<lparr>os_nodes = Map.empty, os_cwd = [], os_refuses = (\<lambda>_. 0), os_fds = []\<rparr>,
              lw_entries = []\<rparr>\<rparr>"

definition loads_sample_events :: "loads_event list" where
  "loads_sample_events = [App_load ''https://h/f'' 0 1, App_load ''https://no-path'' 0 2,
     App_load ''file://x'' 0 3, App_load ''gopher://x'' 0 4, Posted_run 1]"

lemma concurrent_loads_witness:
  "let (leaked, fm) = loads_run (loads_vtable (\<lambda>_. ()) (\<lambda>_. ()) sample_resolve (\<lambda>_. None)
       (\<lambda>_. ec_success) accepting_handlers) (\<lambda>_. ()) (\<lambda>_. ()) loads_sample_events (0, loads_sample)
   in outstandingOperations fm = 2 \<and> mset (map fst (finals fm)) = {#2#}"
proof -
  let ?vt = "loads_vtable (\<lambda>_. ()) (\<lambda>_. ()) sample_resolve (\<lambda>_. None) (\<lambda>_. ec_success) accepting_handlers ::
    (loader_object, unit, saver_object, unit loads_world, unit) vtable"
  let ?st = "loads_run ?vt (\<lambda>_. ()) (\<lambda>_. ()) loads_sample_events (0, loads_sample)"
  have n: "unreported_count (lw_entries (world (snd ?st))) = 2" and l: "fst ?st = 0"
    and c: "map callback_of (filter (\<lambda>x. \<not> unreported x) (lw_entries (world (snd ?st)))) = [2]"
    by code_simp+
  have "reported_callbacks (lw_entries (world (snd ?st))) = {#2#}"
    unfolding reported_callbacks_def mset_filter[symmetric] mset_map[symmetric] c by simp
  moreover have s: "ran (loaders loads_sample) \<subseteq> {HTTP_loader, MNN_loader}"
      "outstandingOperations loads_sample = 0" "lw_entries (world loads_sample) = []" "finals loads_sample = []"
    by (simp_all add: loads_sample_def)
  ultimately show ?thesis
    using concurrent_loads[where es = loads_sample_events and sni = "\<lambda>_. None" and resolve = sample_resolve
        and assign = "\<lambda>_. ec_success" and other = accepting_handlers and wh = "\<lambda>_. ()" and wm = "\<lambda>_. ()"
        and e = "Posted_run 2", OF s prod.collapse prod.collapse] n l
    by (simp add: case_prod_beta)
qed

end
