(* ===== verification/Ledger.thy ===== *)
theory Ledger
  imports AsyncPrelude "HOL-Library.Multiset"
begin

text \<open>
  The abstract specification of \<open>FileManager\<close>: a ledger of operations and final callbacks,
  its steps, what they promise, and the contract by which a program refines it.
\<close>

section \<open>Operations and final callbacks\<close>

text \<open>
  An operation is the final callback it has still to call (\<open>Some k\<close>), or \<open>None\<close> when it has
  none or has called it; it owes one decrement of the counter in any case.
\<close>

definition finals_of :: "nat option multiset \<Rightarrow> nat multiset" where
  "finals_of M = image_mset the (filter_mset (\<lambda>x. x \<noteq> None) M)"

lemma finals_of_simps [simp]:
  "finals_of {#} = {#}" "finals_of (add_mset x M) = (case x of None \<Rightarrow> finals_of M | Some k \<Rightarrow> add_mset k (finals_of M))"
  "finals_of (M + N) = finals_of M + finals_of N"
  by (simp_all add: finals_of_def split: option.split)

lemma finals_of_replicate [simp]: "finals_of (mset (replicate n None)) = {#}"
  by (induction n) simp_all

section \<open>The ledger\<close>

text \<open>
  The abstract specification: the open operations, the lost ones, the final callbacks
  called so far, those asked for, and the io_contexts stopped. A step opens an operation (or
  loses it at once), ends one, lets one go on without its final callback, which it has
  called, or loses one. Ending the last operation stops a context when nothing is lost;
  a save that is refused while nothing is open stops one too.
\<close>

record ledger =
  lg_open :: "nat option multiset"
  lg_lost :: "nat option multiset"
  lg_called :: "nat list"
  lg_requested :: "nat multiset"
  lg_stops :: "nat list"

definition final_list :: "nat option \<Rightarrow> nat list" where
  "final_list x = (case x of None \<Rightarrow> [] | Some k \<Rightarrow> [k])"

inductive ledger_step :: "ledger \<Rightarrow> ledger \<Rightarrow> bool" where
  rest: "ledger_step l l"
| begins: "size N + size L = 1 \<Longrightarrow> ledger_step l (l\<lparr>lg_open := lg_open l + N, lg_lost := lg_lost l + L,
    lg_requested := lg_requested l + finals_of N + finals_of L\<rparr>)"
| refused: "lg_open l = {#} \<Longrightarrow> lg_lost l = {#} \<Longrightarrow> ledger_step l (l\<lparr>lg_stops := lg_stops l @ [ioc]\<rparr>)"
| ends: "lg_open l = add_mset x M \<Longrightarrow> ledger_step l (l\<lparr>lg_open := M, lg_called := lg_called l @ final_list x,
    lg_stops := lg_stops l @ (if M = {#} \<and> lg_lost l = {#} then [ioc] else [])\<rparr>)"
| goes_on: "lg_open l = add_mset (Some k) M \<Longrightarrow> (N, L) \<in> {({#None#}, {#}), ({#}, {#None#})} \<Longrightarrow>
    ledger_step l (l\<lparr>lg_open := M + N, lg_lost := lg_lost l + L, lg_called := lg_called l @ [k]\<rparr>)"
| loses: "lg_open l = add_mset x M \<Longrightarrow> ledger_step l (l\<lparr>lg_open := M, lg_lost := add_mset x (lg_lost l)\<rparr>)"

definition ledger_ok :: "ledger \<Rightarrow> bool" where
  "ledger_ok l \<longleftrightarrow> lg_requested l = mset (lg_called l) + finals_of (lg_open l) + finals_of (lg_lost l)"

text \<open>What the specification promises of every step.\<close>

lemma ledger_step_ok: "ledger_step l l' \<Longrightarrow> ledger_ok l \<Longrightarrow> ledger_ok l'"
  by (induction rule: ledger_step.induct) (auto simp: ledger_ok_def final_list_def split: option.splits)

lemma ledger_step_called: "ledger_step l l' \<Longrightarrow> prefix (lg_called l) (lg_called l')"
  by (induction rule: ledger_step.induct) auto

lemma ledger_step_stopped: "ledger_step l l' \<Longrightarrow> prefix (lg_stops l) (lg_stops l')"
  by (induction rule: ledger_step.induct) auto

lemma ledger_step_lost: "ledger_step l l' \<Longrightarrow> lg_lost l \<subseteq># lg_lost l'"
  by (induction rule: ledger_step.induct) auto

lemma ledger_step_stops:
  "ledger_step l l' \<Longrightarrow> lg_stops l' \<noteq> lg_stops l \<Longrightarrow> lg_open l' = {#} \<and> lg_lost l' = {#}"
  "ledger_step l l' \<Longrightarrow> lg_open l \<noteq> {#} \<Longrightarrow> lg_open l' = {#} \<Longrightarrow> lg_lost l' = {#} \<Longrightarrow> lg_stops l' \<noteq> lg_stops l"
  by (induction rule: ledger_step.induct) (auto split: if_splits)

lemma ledger_end:
  assumes "lg_open l = add_mset x M" and "b \<longleftrightarrow> M = {#} \<and> lg_lost l = {#}"
    and "l' = l\<lparr>lg_open := M, lg_called := lg_called l @ final_list x,
      lg_stops := lg_stops l @ (if b then [ioc] else [])\<rparr>"
  shows "ledger_step l l'"
  unfolding assms(2,3) by (rule ledger_step.ends[OF assms(1)])

text \<open>A step opens at most one operation.\<close>

definition lg_count :: "ledger \<Rightarrow> nat" where
  "lg_count l = size (lg_open l) + size (lg_lost l)"

lemma ledger_step_count: "ledger_step l l' \<Longrightarrow> lg_count l' \<le> Suc (lg_count l)"
  by (induction rule: ledger_step.induct) (auto simp: lg_count_def)

definition empty_ledger :: ledger where
  "empty_ledger = \<lparr>lg_open = {#}, lg_lost = {#}, lg_called = [], lg_requested = {#}, lg_stops = []\<rparr>"

lemma ledger_run_ok: "ledger_step\<^sup>*\<^sup>* empty_ledger l \<Longrightarrow> ledger_ok l"
proof (induction rule: rtranclp_induct)
  case base
  show ?case by (simp add: ledger_ok_def empty_ledger_def)
next
  case (step y z)
  then show ?case by (blast intro: ledger_step_ok)
qed

text \<open>A counter that stands at one counts the last open operation, with none lost.\<close>

lemma tally_zero: "int (size M) + int (length L) = 0 \<longleftrightarrow> M = {#} \<and> L = []"
  unfolding size_eq_0_iff_empty[symmetric] length_0_conv[symmetric] by linarith

lemma tally_last:
  assumes "n = int (size (add_mset x N) + length L)"
  shows "0 < n" "n = 1 \<longleftrightarrow> N = {#} \<and> mset L = {#}" "n - 1 = int (size N + length L)"
  using assms tally_zero[of N L] by auto

section \<open>Refining the ledger\<close>

text \<open>
  A program whose steps keep an invariant and are, seen through \<open>abs\<close>, steps of the ledger.
\<close>

locale refines_ledger =
  fixes step :: "'e \<Rightarrow> 's \<Rightarrow> 's"
    and inv :: "'s \<Rightarrow> bool"
    and abs :: "'s \<Rightarrow> ledger"
  assumes inv_step: "inv s \<Longrightarrow> inv (step e s)"
    and sim_step: "inv s \<Longrightarrow> ledger_step (abs s) (abs (step e s))"
begin

lemma run: "inv s \<Longrightarrow> inv (fold step es s) \<and> ledger_step\<^sup>*\<^sup>* (abs s) (abs (fold step es s))"
proof (induction es arbitrary: s)
  case (Cons e es)
  from Cons.IH[OF inv_step[OF Cons.prems]] sim_step[OF Cons.prems] show ?case
    by (auto intro: converse_rtranclp_into_rtranclp)
qed simp

lemma run_accounted: "inv s \<Longrightarrow> abs s = empty_ledger \<Longrightarrow> ledger_ok (abs (fold step es s))"
  using run[of s es] ledger_run_ok by auto

lemma called_once_and_kept: "inv s \<Longrightarrow> prefix (lg_called (abs s)) (lg_called (abs (step e s)))"
  by (rule ledger_step_called[OF sim_step])

lemma run_count: "inv s \<Longrightarrow> lg_count (abs (fold step es s)) \<le> lg_count (abs s) + length es"
proof (induction es arbitrary: s)
  case (Cons e es)
  have "lg_count (abs (fold step es (step e s))) \<le> lg_count (abs (step e s)) + length es"
    by (rule Cons.IH[OF inv_step[OF Cons.prems]])
  moreover have "lg_count (abs (step e s)) \<le> Suc (lg_count (abs s))"
    by (rule ledger_step_count[OF sim_step[OF Cons.prems]])
  ultimately show ?case by simp
qed simp

text \<open>As long as an operation is lost, no step stops a context.\<close>

lemma lost_never_stops:
  "inv s \<Longrightarrow> lg_lost (abs s) \<noteq> {#} \<Longrightarrow>
   lg_stops (abs (fold step es s)) = lg_stops (abs s) \<and> lg_lost (abs (fold step es s)) \<noteq> {#}"
proof (induction es arbitrary: s)
  case (Cons e es)
  note st = sim_step[OF Cons.prems(1), of e]
  have "lg_lost (abs (step e s)) \<noteq> {#}"
    using ledger_step_lost[OF st] Cons.prems(2) by (metis subset_mset.le_zero_eq)
  with Cons.IH[OF inv_step[OF Cons.prems(1)] this] ledger_step_stops(1)[OF st] show ?case by auto
qed simp

end

end
