(* ===== verification/LibraryRuns.thy ===== *)
theory LibraryRuns
  imports Delivery Ledger "HOL-Library.Word"
begin

text \<open>
  \<open>FileManager\<close> at work: the local loader and saver in full, any other loaders and savers
  through their callbacks, and the application, in any interleaving
  (\<open>src/FileManager.cpp\<close>, \<open>src/MNNLoader.cpp\<close>, \<open>src/MNNSaver.cpp\<close>). The theorem accounts for
  every operation and every final callback.
\<close>

section \<open>The library and what is known about its operations\<close>

text \<open>
  Beside the file manager: the callbacks the other loaders and savers have been given and
  have not called yet, with their io_contexts; the operations that will never end, each with
  the final callback it will never call; and the final callbacks of all accepted calls.
\<close>

record ('p, 'e) running_library =
  lib_fm :: "('p, 'e) file_library"
  lib_reads :: "(read_callback \<times> nat) list"
  lib_writes :: "('e write_callback \<times> nat) list"
  lib_leaked :: "nat option list"
  lib_requested :: "nat list"

type_synonym ('p, 'e) library_vtable = "(loader_object, 'p, saver_object, 'e file_world, 'e) vtable"

text \<open>Data without a name: the local saver accepts it and never calls back.\<close>

fun no_names :: "'e result_type \<Rightarrow> bool" where
  "no_names (Inr (Some (names, contents))) \<longleftrightarrow> names = []"
| "no_names _ = False"

text \<open>
  \<open>handle_read\<close> runs: an exception leaves the operation counted and its final callback
  uncalled; a save it has started owes one call of \<open>handle_write\<close>.
\<close>

definition finish_read ::
  "('p, 'e) library_vtable \<Rightarrow> read_callback \<Rightarrow> nat \<Rightarrow> 'e result_type \<Rightarrow> bool \<Rightarrow> bool \<Rightarrow>
   ('p, 'e) running_library \<Rightarrow> ('p, 'e) running_library" where
  "finish_read vt cb ioc r parse save lib =
     (case handle_read vt cb ioc r parse save (lib_fm lib) of
        (Inl _, fm) \<Rightarrow> lib\<lparr>lib_fm := fm, lib_leaked := lib_leaked lib @ [Some (rc_finalcall cb)]\<rparr>
      | (Inr _, fm) \<Rightarrow>
          let lib1 = lib\<lparr>lib_fm := fm\<rparr>
          in if isl r \<or> \<not> save then lib1
             else if savers (lib_fm lib) (rc_savetype cb) \<noteq> Some MNN_saver
             then lib1\<lparr>lib_writes := lib_writes lib @ [(Write_of_load, ioc)]\<rparr>
             else if no_names r then lib1\<lparr>lib_leaked := lib_leaked lib @ [None]\<rparr>
             else lib1)"

fun finish_act ::
  "('p, 'e) library_vtable \<Rightarrow> read_callback \<Rightarrow> nat \<Rightarrow> ('d \<Rightarrow> 'e) \<Rightarrow> ('d, 'x) act \<Rightarrow>
   ('p, 'e) running_library \<Rightarrow> ('p, 'e) running_library" where
  "finish_act vt cb ioc wrap (Handle_read r parse save) lib =
     finish_read vt cb ioc (map_sum wrap (\<lambda>b. b) r) parse save lib"
| "finish_act vt cb ioc wrap (Post_read r parse save) lib =
     finish_read vt cb ioc (map_sum wrap (\<lambda>b. b) r) parse save lib"
| "finish_act vt cb ioc wrap _ lib = lib"

definition upd_world :: "('e file_world \<Rightarrow> 'e file_world) \<Rightarrow> ('p, 'e) running_library \<Rightarrow> ('p, 'e) running_library" where
  "upd_world f lib = lib\<lparr>lib_fm := (lib_fm lib)\<lparr>world := f (world (lib_fm lib))\<rparr>\<rparr>"

text \<open>The handler of the \<open>k\<close>-th read in flight.\<close>

definition local_read ::
  "('p, 'e) library_vtable \<Rightarrow> (mnn_loader_error \<Rightarrow> 'e) \<Rightarrow> nat \<Rightarrow> error_code \<Rightarrow> bytes \<Rightarrow>
   ('p, 'e) running_library \<Rightarrow> ('p, 'e) running_library" where
  "local_read vt wrap k ec data lib =
     (let (ml, cb, ioc) = fw_loads (world (lib_fm lib)) ! k;
          (ml', as) = mnn_load_step ml (Mnn_read_done ec data);
          lib1 = fold (finish_act vt cb ioc wrap) as (upd_world (\<lambda>w. w\<lparr>fw_loads := remove_nth k (fw_loads w)\<rparr>) lib)
      in upd_world (\<lambda>w. w\<lparr>fw_os := destroy_FILEDevice (ml_device ml) (fw_os w)\<rparr>) lib1)"

text \<open>
  What can happen: the application calls a method of \<open>FileManager\<close> (and catches what it
  throws), a handler of the local files runs, or another loader or saver calls back.
\<close>

datatype 'e library_event =
    Call_LoadASync string bool bool nat nat string
  | Call_SaveASync string "'e result_type" nat "nat option" "nat option"
  | Call_LoadFile string bool
  | Call_SaveFile string "bytes option"
  | Run_handler file_event
  | Other_read nat "'e result_type" bool bool
  | Other_write nat

fun library_step ::
  "('p, 'e) library_vtable \<Rightarrow> (mnn_loader_error \<Rightarrow> 'e) \<Rightarrow> 'e library_event \<Rightarrow>
   ('p, 'e) running_library \<Rightarrow> ('p, 'e) running_library" where
  "library_step vt wrap (Call_LoadASync url parse save ioc k savetype) lib =
     (let fm = lib_fm lib
      in case LoadASync vt url parse save ioc k savetype fm of
           (Inl _, fm1) \<Rightarrow> lib\<lparr>lib_fm := fm1, lib_leaked := lib_leaked lib @
                replicate (nat (outstandingOperations fm1 - outstandingOperations fm)) None\<rparr>
         | (Inr _, fm1) \<Rightarrow>
             lib\<lparr>lib_fm := fm1, lib_requested := lib_requested lib @ [k],
                 lib_reads := lib_reads lib @ (if loaders fm (prefix_of url) = Some MNN_loader then []
                   else [(load_callback url savetype k, ioc)])\<rparr>)"
| "library_step vt wrap (Call_SaveASync url data ioc k loc) lib =
     (let fm = lib_fm lib
      in case SaveASync vt url data ioc k loc fm of
           (Inl _, fm1) \<Rightarrow> lib\<lparr>lib_fm := fm1\<rparr>
         | (Inr _, fm1) \<Rightarrow>
             let lib1 = lib\<lparr>lib_fm := fm1, lib_requested := lib_requested lib @
                   (case k of None \<Rightarrow> [] | Some k \<Rightarrow> [k])\<rparr>
             in if savers fm (prefix_of url) \<noteq> Some MNN_saver
                then lib1\<lparr>lib_writes := lib_writes lib @ [(Write_of_save ioc k data, ioc)]\<rparr>
                else if no_names data then lib1\<lparr>lib_leaked := lib_leaked lib @ [k]\<rparr>
                else lib1)"
| "library_step vt wrap (Call_LoadFile url parse) lib = lib\<lparr>lib_fm := snd (LoadFile vt url parse (lib_fm lib))\<rparr>"
| "library_step vt wrap (Call_SaveFile url data) lib = lib\<lparr>lib_fm := snd (SaveFile vt url data (lib_fm lib))\<rparr>"
| "library_step vt wrap (Run_handler (File_read k ec data)) lib =
     (if k < length (fw_loads (world (lib_fm lib))) then local_read vt wrap k ec data lib else lib)"
| "library_step vt wrap (Run_handler e) lib = lib\<lparr>lib_fm := file_step vt wrap (lib_fm lib) e\<rparr>"
| "library_step vt wrap (Other_read i r parse save) lib =
     (if i < length (lib_reads lib) then
        let (cb, ioc) = lib_reads lib ! i
        in finish_read vt cb ioc r parse save (lib\<lparr>lib_reads := remove_nth i (lib_reads lib)\<rparr>)
      else lib)"
| "library_step vt wrap (Other_write i) lib =
     (if i < length (lib_writes lib) then
        let (cb, ioc) = lib_writes lib ! i
        in lib\<lparr>lib_fm := handle_write cb ioc (lib_fm lib), lib_writes := remove_nth i (lib_writes lib)\<rparr>
      else lib)"

definition library_run ::
  "('p, 'e) library_vtable \<Rightarrow> (mnn_loader_error \<Rightarrow> 'e) \<Rightarrow> 'e library_event list \<Rightarrow>
   ('p, 'e) running_library \<Rightarrow> ('p, 'e) running_library" where
  "library_run vt wrap es lib = fold (library_step vt wrap) es lib"

definition library_start :: "('p, 'e) file_library \<Rightarrow> ('p, 'e) running_library" where
  "library_start fm = \<lparr>lib_fm = fm, lib_reads = [], lib_writes = [], lib_leaked = [], lib_requested = []\<rparr>"

text \<open>The file manager of the library moves as \<open>file_step\<close> says.\<close>

lemma finish_read_fm: "lib_fm (finish_read vt cb ioc r parse save lib) = snd (handle_read vt cb ioc r parse save (lib_fm lib))"
  by (auto simp: finish_read_def Let_def split: prod.splits sum.splits)

lemma fold_finish_fm: "lib_fm (fold (finish_act vt cb ioc wrap) as lib) = deliver vt cb ioc wrap as (lib_fm lib)"
proof (induction as arbitrary: lib)
  case (Cons a as)
  have "lib_fm (finish_act vt cb ioc wrap a lib) = deliver_read vt cb ioc wrap a (lib_fm lib)"
    by (cases a) (simp_all add: finish_read_fm)
  with Cons show ?case by (simp add: deliver_def)
qed (simp add: deliver_def)

lemma handler_moves_file_manager:
  "lib_fm (library_step vt wrap (Run_handler e) lib) = file_step vt wrap (lib_fm lib) e"
  by (cases e) (auto simp: local_read_def on_file_read_def upd_world_def fold_finish_fm Let_def
      split: prod.splits)

section \<open>What is owed\<close>

text \<open>
  Every operation in progress owes a decrement, and \<open>Some k\<close> the call of the final callback
  \<open>k\<close> besides; a save of a load and a save without a final callback owe \<open>None\<close>.
\<close>

fun write_final :: "'e write_callback \<Rightarrow> nat option" where
  "write_final Write_of_load = None"
| "write_final (Write_of_save ioc k data) = k"

fun posted_final :: "'e posted \<Rightarrow> nat option" where
  "posted_final (Posted_read cb ioc r) = Some (rc_finalcall cb)"
| "posted_final (Posted_write cb ioc) = write_final cb"

fun load_owed :: "mnn_load \<times> read_callback \<times> nat \<Rightarrow> nat option multiset" where
  "load_owed (ml, cb, ioc) = (if ml_reading ml then {#Some (rc_finalcall cb)#} else {#})"

fun save_owed :: "nat \<times> (string list \<times> bytes) list \<times> file_device list \<times> 'e write_callback \<times> nat \<Rightarrow>
    nat option multiset" where
  "save_owed (n, ws, ds, cb, ioc) = (if ws \<noteq> [] \<and> length ws = n then {#write_final cb#} else {#})"

definition world_owed :: "'e file_world \<Rightarrow> nat option multiset" where
  "world_owed w = sum_list (map load_owed (fw_loads w)) + sum_list (map save_owed (fw_saves w)) +
     mset (map posted_final (fw_posted w))"

definition owed :: "('p, 'e) running_library \<Rightarrow> nat option multiset" where
  "owed lib = world_owed (world (lib_fm lib)) +
     mset (map (\<lambda>(cb, ioc). Some (rc_finalcall cb)) (lib_reads lib)) +
     mset (map (\<lambda>(cb, ioc). write_final cb) (lib_writes lib))"

fun wf_save :: "nat \<times> (string list \<times> bytes) list \<times> file_device list \<times> 'e write_callback \<times> nat \<Rightarrow> bool" where
  "wf_save (n, ws, ds, cb, ioc) \<longleftrightarrow> length ws \<le> n"

section \<open>The library as a ledger\<close>

text \<open>
  The ledger of a library in which the operations \<open>M\<close> are being handled, and the counter,
  which is the number of open and lost operations.
\<close>

definition ledger_of :: "nat option multiset \<Rightarrow> ('p, 'e) running_library \<Rightarrow> ledger" where
  "ledger_of M lib = \<lparr>lg_open = M + owed lib, lg_lost = mset (lib_leaked lib),
     lg_called = map fst (finals (lib_fm lib)), lg_requested = mset (lib_requested lib),
     lg_stops = stopped (lib_fm lib)\<rparr>"

definition counted :: "nat option multiset \<Rightarrow> ('p, 'e) running_library \<Rightarrow> bool" where
  "counted M lib \<longleftrightarrow> (\<forall>x\<in>set (fw_saves (world (lib_fm lib))). wf_save x) \<and>
     outstandingOperations (lib_fm lib) = int (size (M + owed lib) + length (lib_leaked lib))"

definition moves :: "nat option multiset \<Rightarrow> ('p, 'e) running_library \<Rightarrow> nat option multiset \<Rightarrow> ('p, 'e) running_library \<Rightarrow> bool" where
  "moves M lib M' lib' \<longleftrightarrow> counted M' lib' \<and> ledger_step (ledger_of M lib) (ledger_of M' lib')"

lemma moves_rest: "counted M' lib' \<Longrightarrow> ledger_of M' lib' = ledger_of M lib \<Longrightarrow> moves M lib M' lib'"
  by (simp add: moves_def ledger_step.rest)

lemma last_operation:
  assumes "counted M lib" and "M + owed lib = add_mset x N"
  shows "0 < outstandingOperations (lib_fm lib)"
    "outstandingOperations (lib_fm lib) = 1 \<longleftrightarrow> N = {#} \<and> mset (lib_leaked lib) = {#}"
    "outstandingOperations (lib_fm lib) - 1 = int (size N + length (lib_leaked lib))"
proof -
  have "outstandingOperations (lib_fm lib) = int (size (add_mset x N) + length (lib_leaked lib))"
    using assms by (simp add: counted_def)
  from tally_last[OF this] show "0 < outstandingOperations (lib_fm lib)"
    "outstandingOperations (lib_fm lib) = 1 \<longleftrightarrow> N = {#} \<and> mset (lib_leaked lib) = {#}"
    "outstandingOperations (lib_fm lib) - 1 = int (size N + length (lib_leaked lib))" by blast+
qed

text \<open>Taking one operation off the counter.\<close>

lemma Decrement_facts:
  assumes "0 < outstandingOperations fm"
  shows "outstandingOperations (DecrementOutstandingOperations ioc fm) = outstandingOperations fm - 1"
    "finals (DecrementOutstandingOperations ioc fm) = finals fm"
    "world (DecrementOutstandingOperations ioc fm) = world fm"
    "stopped (DecrementOutstandingOperations ioc fm) =
       stopped fm @ (if outstandingOperations fm = 1 then [ioc] else [])"
  using assms by (auto simp: DecrementOutstandingOperations_def stop_ioc_def Let_def)

fun ioc_of :: "nat \<Rightarrow> 'e write_callback \<Rightarrow> nat" where
  "ioc_of ioc Write_of_load = ioc"
| "ioc_of ioc (Write_of_save own_ioc k data) = own_ioc"

lemma handle_write_facts:
  assumes "0 < outstandingOperations fm"
  shows "outstandingOperations (handle_write cb ioc fm) = outstandingOperations fm - 1"
    "map fst (finals (handle_write cb ioc fm)) = map fst (finals fm) @ final_list (write_final cb)"
    "world (handle_write cb ioc fm) = world fm"
    "stopped (handle_write cb ioc fm) =
       stopped fm @ (if outstandingOperations fm = 1 then [ioc_of ioc cb] else [])"
  using Decrement_facts[OF assms]
  by (auto simp: handle_write_def call_final_def final_list_def Let_def split: write_callback.split option.split)

text \<open>An operation ends: by a final callback and a decrement, or by \<open>handle_write\<close>.\<close>

lemma ends_moves:
  assumes "counted M lib" and "M + owed lib = add_mset x (M' + owed lib')"
    and "outstandingOperations (lib_fm lib') = outstandingOperations (lib_fm lib) - 1"
    and "map fst (finals (lib_fm lib')) = map fst (finals (lib_fm lib)) @ final_list x"
    and "stopped (lib_fm lib') = stopped (lib_fm lib) @ (if outstandingOperations (lib_fm lib) = 1 then [ioc] else [])"
    and "\<forall>x\<in>set (fw_saves (world (lib_fm lib'))). wf_save x"
    and "lib_leaked lib' = lib_leaked lib" and "lib_requested lib' = lib_requested lib"
  shows "moves M lib M' lib'"
proof -
  note l = last_operation[OF assms(1,2)]
  have "ledger_step (ledger_of M lib) (ledger_of M' lib')"
    by (rule ledger_end[where x = x and M = "M' + owed lib'" and ioc = ioc
          and b = "outstandingOperations (lib_fm lib) = 1"])
      (use assms(2,4,5,7,8) l(2) in \<open>simp_all add: ledger_of_def\<close>)
  moreover have "counted M' lib'" using l(3) assms(3,6,7) by (simp add: counted_def)
  ultimately show ?thesis by (simp add: moves_def)
qed

lemma begins_moves:
  assumes "counted {#} lib" and "\<forall>x\<in>set (fw_saves (world (lib_fm lib'))). wf_save x"
    and "outstandingOperations (lib_fm lib') = outstandingOperations (lib_fm lib) + 1"
    and "finals (lib_fm lib') = finals (lib_fm lib)" and "stopped (lib_fm lib') = stopped (lib_fm lib)"
    and "owed lib' = owed lib + N" and "lib_leaked lib' = lib_leaked lib @ L" and "size N + length L = 1"
    and "mset (lib_requested lib') = mset (lib_requested lib) + finals_of N + finals_of (mset L)"
  shows "moves {#} lib {#} lib'"
proof -
  have "ledger_step (ledger_of {#} lib) (ledger_of {#} lib')"
    using ledger_step.begins[of N "mset L" "ledger_of {#} lib"] assms(4-9)
    by (simp add: ledger_of_def ac_simps)
  moreover have "int (size N) + int (length L) = 1" using assms(8) by linarith
  then have "counted {#} lib'" using assms(1-3,6,7) by (simp add: counted_def)
  ultimately show ?thesis by (simp add: moves_def)
qed

section \<open>The local saver and the other handlers\<close>

lemma mnn_save_loop_throws:
  "mnn_save_loop assign d names contents ms = (Inl e, ms', as) \<Longrightarrow>
   length (ms_writes ms) + length names = ms_remaining ms \<Longrightarrow>
   as = [] \<and> length (ms_writes ms') < ms_remaining ms'"
proof (induction names arbitrary: contents ms)
  case (Cons n names)
  from Cons.prems(1) show ?case
  proof (cases rule: mnn_save_loop_Cons_cases)
    case (fail e')
    with mnn_save_file_cases(1,3,5)[OF fail(1)] Cons.prems show ?thesis by simp
  next
    case (go ms1)
    with Cons.IH[OF go(2)] mnn_save_file_cases(1,2)[OF go(1)] Cons.prems show ?thesis by simp
  qed simp
qed simp

lemma mnn_save_loop_acts:
  "mnn_save_loop assign d names contents ms = (r, ms', as) \<Longrightarrow> as = [] \<or> as = [Post_write]"
proof (induction names arbitrary: contents ms)
  case (Cons n names)
  from Cons.prems show ?case
  proof (cases rule: mnn_save_loop_Cons_cases)
    case (go ms1)
    from Cons.IH[OF go(2)] show ?thesis .
  qed (auto dest: mnn_save_file_cases(4,5))
qed simp

text \<open>What a call of the local saver leaves behind, accepted or not.\<close>

lemma SaveASync_entry:
  assumes "MNNSaver_SaveASync assign uuid filename data sfx loc s = (r, ms, as)"
  shows "length (ms_writes ms) \<le> ms_remaining ms"
    "concat (map (posted_write cb ioc) as) = replicate (completions as) (Posted_write cb ioc)"
    "r = Inl e \<Longrightarrow> completions as = 0 \<and> \<not> (ms_writes ms \<noteq> [] \<and> length (ms_writes ms) = ms_remaining ms)"
    "r = Inr () \<Longrightarrow> completions as + (if ms_writes ms \<noteq> [] \<and> length (ms_writes ms) = ms_remaining ms then 1 else 0) =
       (if no_names data then 0 else 1)"
proof -
  have "length (ms_writes ms) \<le> ms_remaining ms \<and>
    concat (map (posted_write cb ioc) as) = replicate (completions as) (Posted_write cb ioc) \<and>
    (r = Inl e \<longrightarrow> completions as = 0 \<and> \<not> (ms_writes ms \<noteq> [] \<and> length (ms_writes ms) = ms_remaining ms)) \<and>
    (r = Inr () \<longrightarrow> completions as + (if ms_writes ms \<noteq> [] \<and> length (ms_writes ms) = ms_remaining ms then 1 else 0) =
       (if no_names data then 0 else 1))"
  proof (cases "\<exists>names contents. data = Inr (Some (names, contents)) \<and> contents \<noteq> []")
    case False
    with assms show ?thesis
      by (auto simp: MNNSaver_SaveASync_def split: sum.splits option.splits prod.splits if_splits)
  next
    case True
    then obtain names contents where d: "data = Inr (Some (names, contents))" "contents \<noteq> []" by blast
    let ?ms0 = "\<lparr>ms_os = s, ms_remaining = length names, ms_writes = [], ms_devices = []\<rparr>"
    let ?d = "if filename = [] then uuid @ ''/'' else filename"
    obtain bs where loop: "mnn_save_loop assign ?d names contents ?ms0 = (r, ms, bs)"
      and as: "as = (if loc then [Io (Set_location (''file://'' @ ?d))] else []) @ bs"
      using assms d by (auto simp: MNNSaver_SaveASync_def Let_def split: prod.splits)
    have posted: "concat (map (posted_write cb ioc) as) = replicate (completions as) (Posted_write cb ioc)"
      using mnn_save_loop_acts[OF loop] as by auto
    show ?thesis
    proof (cases r)
      case (Inl e')
      with mnn_save_loop_throws[of assign ?d names contents ?ms0 e' ms bs] loop posted as show ?thesis by auto
    next
      case (Inr u)
      with loop have l: "mnn_save_loop assign ?d names contents ?ms0 = (Inr (), ms, bs)" by simp
      note c = mnn_save_loop_count[OF l, simplified]
      have "names = [] \<Longrightarrow> bs = [] \<and> ms = ?ms0" using l by simp
      with c Inr posted as d show ?thesis by (cases "names = []") (auto simp: mnn_save_wf_def)
    qed
  qed
  then show "length (ms_writes ms) \<le> ms_remaining ms"
    "concat (map (posted_write cb ioc) as) = replicate (completions as) (Posted_write cb ioc)"
    "r = Inl e \<Longrightarrow> completions as = 0 \<and> \<not> (ms_writes ms \<noteq> [] \<and> length (ms_writes ms) = ms_remaining ms)"
    "r = Inr () \<Longrightarrow> completions as + (if ms_writes ms \<noteq> [] \<and> length (ms_writes ms) = ms_remaining ms then 1 else 0) =
       (if no_names data then 0 else 1)" by blast+
qed

lemma local_save_owed:
  assumes "local_save assign uuid ioc cb filename data sfx loc w = (r, w')"
    and "\<forall>x\<in>set (fw_saves w). wf_save x"
  shows "\<forall>x\<in>set (fw_saves w'). wf_save x"
    "world_owed w' = world_owed w + (if isl r \<or> no_names data then {#} else {#write_final cb#})"
proof -
  obtain r1 ms as where sv: "MNNSaver_SaveASync assign uuid filename data sfx (loc \<noteq> None) (fw_os w) = (r1, ms, as)"
    by (metis prod_cases3)
  have r: "r = r1" and w': "w' = w\<lparr>fw_os := ms_os ms,
      fw_saves := fw_saves w @ [(ms_remaining ms, ms_writes ms, ms_devices ms, cb, ioc)],
      fw_posted := fw_posted w @ concat (map (posted_write cb ioc) as)\<rparr>"
    using assms(1) sv by (auto simp: local_save_def)
  note e = SaveASync_entry[OF sv]
  show "\<forall>x\<in>set (fw_saves w'). wf_save x" using assms(2) e(1) w' by auto
  show "world_owed w' = world_owed w + (if isl r \<or> no_names data then {#} else {#write_final cb#})"
  proof (cases r1)
    case (Inl x)
    with e(2) e(3)[OF Inl] r show ?thesis by (auto simp: world_owed_def w')
  next
    case (Inr x)
    with e(2) e(4) r show ?thesis
      by (cases "completions as") (auto simp: world_owed_def w' split: if_splits)
  qed
qed

text \<open>The other handlers do not touch the operations of the local ones.\<close>

definition same_operations :: "'e file_world \<Rightarrow> 'e file_world \<Rightarrow> bool" where
  "same_operations w w' \<longleftrightarrow> fw_loads w' = fw_loads w \<and> fw_saves w' = fw_saves w \<and> fw_posted w' = fw_posted w"

definition others_keep_operations :: "('p, 'e) library_vtable \<Rightarrow> bool" where
  "others_keep_operations vt \<longleftrightarrow>
     (\<forall>l n w. same_operations w (snd (v_LoadFile vt l n w))) \<and>
     (\<forall>l n p s ioc cb w. same_operations w (snd (v_LoadASync vt l n p s ioc cb w))) \<and>
     (\<forall>p d w. same_operations w (snd (v_ParseData vt p d w))) \<and>
     (\<forall>v n d w. same_operations w (snd (v_SaveFile vt v n d w))) \<and>
     (\<forall>v ioc cb n d sfx loc w. same_operations w (snd (v_SaveASync vt v ioc cb n d sfx loc w)))"

lemma world_owed_same: "same_operations w w' \<Longrightarrow> world_owed w' = world_owed w"
  by (simp add: same_operations_def world_owed_def)

lemma v_SaveASync_owed:
  assumes "others_keep_operations other" and "\<forall>x\<in>set (fw_saves w). wf_save x"
    and "v_SaveASync (file_vtable assign wrap uuid other) v ioc cb filename data sfx loc w = (r, w')"
  shows "\<forall>x\<in>set (fw_saves w'). wf_save x"
    "world_owed w' = world_owed w +
       (if isl r \<or> no_names data \<or> v \<noteq> MNN_saver then {#} else {#write_final cb#})"
proof -
  have "(\<forall>x\<in>set (fw_saves w'). wf_save x) \<and> world_owed w' = world_owed w +
       (if isl r \<or> no_names data \<or> v \<noteq> MNN_saver then {#} else {#write_final cb#})"
  proof (cases "v = MNN_saver")
    case True
    with assms(3) have "local_save assign uuid ioc cb filename data sfx loc w = (r, w')"
      by (simp add: file_vtable_def)
    from local_save_owed[OF this assms(2)] True show ?thesis by auto
  next
    case False
    with assms(3) have "v_SaveASync other v ioc cb filename data sfx loc w = (r, w')"
      by (simp add: file_vtable_def)
    with assms(1) have "same_operations w w'" unfolding others_keep_operations_def by (metis snd_conv)
    with world_owed_same assms(2) False show ?thesis by (auto simp: same_operations_def)
  qed
  then show "\<forall>x\<in>set (fw_saves w'). wf_save x" "world_owed w' = world_owed w +
       (if isl r \<or> no_names data \<or> v \<noteq> MNN_saver then {#} else {#write_final cb#})" by blast+
qed

section \<open>Ending a read\<close>

lemma goes_on_moves:
  assumes "counted (add_mset (Some k) M) lib" and "\<forall>x\<in>set (fw_saves (world (lib_fm lib'))). wf_save x"
    and "outstandingOperations (lib_fm lib') = outstandingOperations (lib_fm lib)"
    and "finals (lib_fm lib') = finals (lib_fm lib) @ [(k, r)]" and "stopped (lib_fm lib') = stopped (lib_fm lib)"
    and "owed lib' = owed lib + N" and "lib_leaked lib' = lib_leaked lib @ L"
    and "(N, L) \<in> {({#None#}, []), ({#}, [None])}" and "lib_requested lib' = lib_requested lib"
  shows "moves (add_mset (Some k) M) lib M lib'"
proof -
  have "(N, mset L) \<in> {({#None#}, {#}), ({#}, {#None#})}" using assms(8) by auto
  from ledger_step.goes_on[of "ledger_of (add_mset (Some k) M) lib" k "M + owed lib", OF _ this]
  have "ledger_step (ledger_of (add_mset (Some k) M) lib) (ledger_of M lib')"
    using assms(4-7,9) by (simp add: ledger_of_def ac_simps)
  moreover have "counted M lib'" using assms(1-3,6-8) by (auto simp: counted_def)
  ultimately show ?thesis by (simp add: moves_def)
qed

lemma finish_read_moves:
  assumes "others_keep_operations other" and "counted (add_mset (Some (rc_finalcall cb)) M) lib"
    and "lib' = finish_read (file_vtable assign wrap uuid other) cb ioc r parse save lib"
  shows "moves (add_mset (Some (rc_finalcall cb)) M) lib M lib'"
proof -
  let ?vt = "file_vtable assign wrap uuid other" and ?fm = "lib_fm lib" and ?k = "rc_finalcall cb"
  have pos: "0 < outstandingOperations ?fm" using assms(2) by (simp add: counted_def)
  have wf: "\<forall>x\<in>set (fw_saves (world ?fm)). wf_save x" using assms(2) by (simp add: counted_def)
  have direct: ?thesis
    if h: "lib' = lib\<lparr>lib_fm := call_final ?k r (DecrementOutstandingOperations ioc ?fm)\<rparr>"
    by (rule ends_moves[OF assms(2), where x = "Some ?k" and ioc = ioc])
      (use Decrement_facts[OF pos] h wf in \<open>simp_all add: call_final_def owed_def final_list_def\<close>)
  have leaked: ?thesis
    if h: "lib' = lib\<lparr>lib_fm := ?fm\<lparr>world := w\<rparr>, lib_leaked := lib_leaked lib @ [Some ?k]\<rparr>"
      "world_owed w = world_owed (world ?fm)" "\<forall>x\<in>set (fw_saves w). wf_save x" for w
  proof -
    have "ledger_step (ledger_of (add_mset (Some ?k) M) lib) (ledger_of M lib')"
      using ledger_step.loses[of "ledger_of (add_mset (Some ?k) M) lib" "Some ?k" "M + owed lib"] h(1,2)
      by (simp add: ledger_of_def owed_def)
    with assms(2) h show ?thesis by (simp add: moves_def counted_def owed_def)
  qed
  show ?thesis
  proof (cases "isl r \<or> \<not> (parse \<and> parsers ?fm ''mnn'' = None) \<and> \<not> save")
    case True
    then show ?thesis
      by (intro direct) (auto simp: assms(3) finish_read_def handle_read_def split: sum.split)
  next
    case False
    then obtain d where d: "r = Inr d" by (cases r) auto
    show ?thesis
    proof (cases "parse \<and> parsers ?fm ''mnn'' = None \<or> savers ?fm (rc_savetype cb) = None")
      case True
      with d False show ?thesis
        by (intro leaked[of "world ?fm"] wf refl) (auto simp: assms(3) finish_read_def handle_read_def)
    next
      case nodflt: False
      then obtain v where v: "savers ?fm (rc_savetype cb) = Some v" by blast
      obtain rs w where sv: "v_SaveASync ?vt v ioc Write_of_load [] r (rc_suffix cb) None (world ?fm) = (rs, w)"
        by force
      note o = v_SaveASync_owed[OF assms(1) wf sv]
      show ?thesis
      proof (cases rs)
        case (Inl e)
        with sv v d False nodflt o show ?thesis
          by (intro leaked[of w]) (auto simp: assms(3) finish_read_def handle_read_def)
      next
        case (Inr u)
        with sv v d False nodflt have lib': "lib' = (let lib1 = lib\<lparr>lib_fm := call_final ?k r (?fm\<lparr>world := w\<rparr>)\<rparr>
            in if v \<noteq> MNN_saver then lib1\<lparr>lib_writes := lib_writes lib @ [(Write_of_load, ioc)]\<rparr>
               else if no_names r then lib1\<lparr>lib_leaked := lib_leaked lib @ [None]\<rparr> else lib1)"
          by (auto simp: assms(3) finish_read_def handle_read_def)
        let ?N = "if v = MNN_saver \<and> no_names r then {#} else {#None#}"
        let ?L = "if v = MNN_saver \<and> no_names r then [None] else []"
        show ?thesis
          by (rule goes_on_moves[OF assms(2), where N = ?N and L = ?L and r = r])
            (use o Inr in \<open>auto simp: lib' owed_def call_final_def Let_def\<close>)
      qed
    qed
  qed
qed

section \<open>Handlers\<close>

lemma sum_list_remove:
  "k < length xs \<Longrightarrow> sum_list (map f xs) = f (xs ! k) + (sum_list (map f (remove_nth k xs)) :: 'a multiset)"
  unfolding remove_nth_def by (subst id_take_nth_drop, assumption) (simp add: ac_simps)

lemma sum_list_replace:
  "k < length xs \<Longrightarrow> sum_list (map f (xs[k := y])) = f y + (sum_list (map f (remove_nth k xs)) :: 'a multiset)"
  by (simp add: remove_nth_def upd_conv_take_nth_drop ac_simps)

lemma mset_remove:
  "k < length xs \<Longrightarrow> mset (map f xs) = add_mset (f (xs ! k)) (mset (map f (remove_nth k xs)))"
  unfolding remove_nth_def by (subst id_take_nth_drop, assumption) simp

lemma library_simps [simp]:
  "world (lib_fm (upd_world f lib)) = f (world (lib_fm lib))"
  "outstandingOperations (lib_fm (upd_world f lib)) = outstandingOperations (lib_fm lib)"
  "stopped (lib_fm (upd_world f lib)) = stopped (lib_fm lib)"
  "finals (lib_fm (upd_world f lib)) = finals (lib_fm lib)"
  "lib_leaked (upd_world f lib) = lib_leaked lib" "lib_requested (upd_world f lib) = lib_requested lib"
  "lib_reads (upd_world f lib) = lib_reads lib" "lib_writes (upd_world f lib) = lib_writes lib"
  by (simp_all add: upd_world_def)

lemma library_os [simp]:
  "owed (upd_world (\<lambda>w. w\<lparr>fw_os := f w\<rparr>) lib) = owed lib"
  by (simp add: owed_def world_owed_def)

lemma moves_os: "moves M lib M' (upd_world (\<lambda>w. w\<lparr>fw_os := f w\<rparr>) lib') = moves M lib M' lib'"
  by (simp add: moves_def counted_def ledger_of_def)

lemma local_read_moves:
  assumes "others_keep_operations other" and "counted {#} lib" and "k < length (fw_loads (world (lib_fm lib)))"
    and "lib' = local_read (file_vtable assign wrap uuid other) wrp k ec data lib"
  shows "moves {#} lib {#} lib'"
proof -
  let ?vt = "file_vtable assign wrap uuid other" and ?w = "world (lib_fm lib)"
  obtain ml cb ioc where k: "fw_loads ?w ! k = (ml, cb, ioc)" by (metis prod_cases3)
  obtain ml' as where st: "mnn_load_step ml (Mnn_read_done ec data) = (ml', as)" by force
  let ?lib0 = "upd_world (\<lambda>w. w\<lparr>fw_loads := remove_nth k (fw_loads w)\<rparr>) lib"
  let ?lib1 = "fold (finish_act ?vt cb ioc wrp) as ?lib0"
  have lib': "lib' = upd_world (\<lambda>w. w\<lparr>fw_os := destroy_FILEDevice (ml_device ml) (fw_os w)\<rparr>) ?lib1"
    using assms(4) k st by (simp add: local_read_def Let_def)
  have o: "owed lib = load_owed (ml, cb, ioc) + owed ?lib0"
    using sum_list_remove[OF assms(3), of load_owed] k by (simp add: owed_def world_owed_def ac_simps)
  then have c: "counted (load_owed (ml, cb, ioc)) ?lib0"
    and l: "ledger_of {#} lib = ledger_of (load_owed (ml, cb, ioc)) ?lib0"
    using assms(2) by (simp_all add: counted_def ledger_of_def del: load_owed.simps)
  show ?thesis
  proof (cases "ml_reading ml")
    case False
    with c l st show ?thesis unfolding lib' moves_os by (auto intro: moves_rest)
  next
    case True
    then obtain r parse save where "as = [Handle_read r parse save]"
      using st by (auto simp: mnn_on_read_def split: if_splits)
    then have l1: "?lib1 = finish_read ?vt cb ioc (map_sum wrp (\<lambda>b. b) r) parse save ?lib0" by simp
    have "counted (add_mset (Some (rc_finalcall cb)) {#}) ?lib0" using c True by simp
    from finish_read_moves[OF assms(1) this l1] True show ?thesis
      unfolding lib' moves_os by (simp add: moves_def l)
  qed
qed

lemma file_write_moves:
  assumes "counted {#} lib" and "k < length (fw_saves (world (lib_fm lib)))"
    and "lib' = lib\<lparr>lib_fm := on_file_write k i n (lib_fm lib)\<rparr>"
  shows "moves {#} lib {#} lib'"
proof -
  let ?fm = "lib_fm lib" and ?w = "world (lib_fm lib)"
  obtain rem ws ds cb ioc where k: "fw_saves ?w ! k = (rem, ws, ds, cb, ioc)" by (metis prod_cases5)
  let ?ms = "\<lparr>ms_os = fw_os ?w, ms_remaining = rem, ms_writes = ws, ms_devices = ds\<rparr>"
  obtain ms as where st: "mnn_save_step ?ms (Mnn_write_done i n) = (ms, as)" by force
  let ?y = "(ms_remaining ms, ms_writes ms, ms_devices ms, cb, ioc)"
  let ?fm1 = "?fm\<lparr>world := ?w\<lparr>fw_os := ms_os ms, fw_saves := (fw_saves ?w)[k := ?y]\<rparr>\<rparr>"
  have fm': "lib_fm lib' = (if Handle_write \<in> set as then handle_write cb ioc ?fm1 else ?fm1)"
    using assms(3) k st by (simp add: on_file_write_def Let_def)
  have rest: "lib_leaked lib' = lib_leaked lib" "lib_requested lib' = lib_requested lib"
    "lib_reads lib' = lib_reads lib" "lib_writes lib' = lib_writes lib" using assms(3) by simp_all
  have handle_write_world: "world (handle_write cb ioc fm) = world fm" for fm :: "('a, 'b) file_library"
    by (auto simp: handle_write_def DecrementOutstandingOperations_def stop_ioc_def call_final_def Let_def
        split: write_callback.splits option.splits)
  have saves: "\<forall>x\<in>set (fw_saves ?w). wf_save x" using assms(1) by (simp add: counted_def)
  from bspec[OF this nth_mem[OF assms(2)]] have wf: "mnn_save_wf ?ms" unfolding k by (simp add: mnn_save_wf_def)
  have wf': "wf_save ?y" using mnn_write.wf_step[OF wf st] by (simp add: mnn_save_wf_def)
  have saves': "\<forall>x\<in>set ((fw_saves ?w)[k := ?y]). wf_save x"
    using saves wf' set_update_subset_insert[of "fw_saves ?w" k ?y] by blast
  let ?rest = "sum_list (map load_owed (fw_loads ?w)) + sum_list (map save_owed (remove_nth k (fw_saves ?w))) +
     mset (map posted_final (fw_posted ?w))"
  have w: "world_owed ?w = save_owed (rem, ws, ds, cb, ioc) + ?rest"
    and w1: "world_owed (world ?fm1) = save_owed ?y + ?rest"
    using sum_list_remove[OF assms(2), of save_owed] sum_list_replace[OF assms(2), of save_owed ?y] k
    by (simp_all add: world_owed_def ac_simps)
  have live: "save_owed (rem, ws, ds, cb, ioc) = (if mnn_save_live ?ms then {#write_final cb#} else {#})"
    "save_owed ?y = (if mnn_save_live ms then {#write_final cb#} else {#})"
    by (auto simp: mnn_save_live_def)
  have hw: "Handle_write \<in> set as \<longleftrightarrow> completions as = 1" "completions as \<le> 1"
    using st by (auto simp: Let_def split: if_splits prod.splits)
  have old: "mnn_save_live ?ms \<or> completions as = 0 \<and> \<not> mnn_save_live ms"
    using mnn_write.dead_step[OF wf _ st] by blast
  show ?thesis
  proof (cases "Handle_write \<in> set as")
    case True
    then have one: "completions as = 1" using hw(1) by blast
    with old have l1: "mnn_save_live ?ms" by simp
    from mnn_write.live_step[OF wf l1 st] one have l2: "\<not> mnn_save_live ms" by (metis zero_neq_one)
    have o: "{#} + owed lib = add_mset (write_final cb) ({#} + owed lib')"
      using w w1 l1 l2 live True handle_write_world by (simp add: owed_def fm' rest)
    from last_operation(1)[OF assms(1) o] have "0 < outstandingOperations ?fm1" by simp
    note h = handle_write_facts[OF this, of cb ioc]
    show ?thesis
      by (rule ends_moves[OF assms(1) o, where ioc = "ioc_of ioc cb"])
        (use h True saves' in \<open>simp_all add: fm' rest\<close>)
  next
    case False
    have zero: "completions as = 0" using hw False by linarith
    have l: "mnn_save_live ms \<longleftrightarrow> mnn_save_live ?ms"
    proof (cases "mnn_save_live ?ms")
      case True
      from mnn_write.live_step[OF wf True st] zero have "mnn_save_live ms" by (metis zero_neq_one)
      with True show ?thesis by simp
    qed (use old in simp)
    have "owed lib' = owed lib" using w w1 l live False by (simp add: owed_def fm' rest)
    with False saves' assms(1) show ?thesis
      by (intro moves_rest) (simp_all add: counted_def ledger_of_def fm' rest)
  qed
qed

lemma file_posted_moves:
  assumes "counted {#} lib" and "lib' = lib\<lparr>lib_fm := file_step vt wrp (lib_fm lib) File_posted\<rparr>"
  shows "moves {#} lib {#} lib'"
proof (cases "fw_posted (world (lib_fm lib))")
  case Nil
  with assms show ?thesis by (simp add: moves_rest)
next
  case (Cons p ps)
  let ?fm0 = "(lib_fm lib)\<lparr>world := (world (lib_fm lib))\<lparr>fw_posted := ps\<rparr>\<rparr>"
  have o: "world_owed (world (lib_fm lib)) = add_mset (posted_final p) (world_owed (world ?fm0))"
    by (simp add: world_owed_def Cons)
  have "{#} + owed lib = add_mset (posted_final p) ({#} + owed (lib\<lparr>lib_fm := ?fm0\<rparr>))"
    using o by (simp add: owed_def)
  note pos = last_operation(1)[OF assms(1) this]
  have saves: "\<forall>x\<in>set (fw_saves (world (lib_fm lib))). wf_save x" using assms(1) by (simp add: counted_def)
  show ?thesis
  proof (cases p)
    case (Posted_read cb ioc r)
    then have "lib' = lib\<lparr>lib_fm := call_final (rc_finalcall cb) r (DecrementOutstandingOperations ioc ?fm0)\<rparr>"
      using assms(2) Cons by (simp add: plain_handle_read)
    with o Posted_read Decrement_facts[of ?fm0 ioc] pos saves show ?thesis
      by (intro ends_moves[OF assms(1), where x = "posted_final p" and ioc = ioc])
        (simp_all add: owed_def call_final_def final_list_def)
  next
    case (Posted_write cb ioc)
    then have "lib' = lib\<lparr>lib_fm := handle_write cb ioc ?fm0\<rparr>" using assms(2) Cons by simp
    with o Posted_write handle_write_facts[of ?fm0 cb ioc] pos saves show ?thesis
      by (intro ends_moves[OF assms(1), where x = "posted_final p" and ioc = "ioc_of ioc cb"])
        (simp_all add: owed_def)
  qed
qed

section \<open>Calls\<close>

lemma MNN_load_owed:
  assumes "v_LoadASync (file_vtable assign wrap uuid other) MNN_loader filename parse save ioc cb w = (r, w')"
  shows "\<not> isl r" "world_owed w' = add_mset (Some (rc_finalcall cb)) (world_owed w)" "fw_saves w' = fw_saves w"
proof -
  obtain msg ml as s1 where l: "MNNLoader_LoadASync assign filename parse save (fw_os w) = (msg, ml, as, s1)"
    by (metis prod_cases4)
  have "as = (if ml_reading ml then [] else [Post_read (Inl MNN_FILE_OPEN_FAIL) False False])"
    using l by (auto simp: MNNLoader_LoadASync_def Let_def split: prod.splits if_splits)
  with assms l show "\<not> isl r" "world_owed w' = add_mset (Some (rc_finalcall cb)) (world_owed w)"
    "fw_saves w' = fw_saves w"
    by (auto simp: file_vtable_def local_load_def world_owed_def)
qed

lemma call_load_moves:
  assumes "others_keep_operations other" and "counted {#} lib"
    and "lib' = library_step (file_vtable assign wrap uuid other) wrp (Call_LoadASync url parse save ioc k savetype) lib"
  shows "moves {#} lib {#} lib'"
proof -
  let ?vt = "file_vtable assign wrap uuid other" and ?fm = "lib_fm lib"
  obtain p where p: "components url = Inr p" using components_returns by blast
  show ?thesis
  proof (cases "loaders ?fm (up_prefix p)")
    case None
    then have "lib' = lib" using p assms(3) by (simp add: LoadASync_def)
    with assms(2) show ?thesis by (simp add: moves_rest)
  next
    case (Some l)
    have c: "\<forall>x\<in>set (fw_saves (world ?fm)). wf_save x" using assms(2) by (simp add: counted_def)
    have cb: "load_callback url savetype k = \<lparr>rc_savetype = savetype, rc_suffix = up_extension p, rc_finalcall = k\<rparr>"
      using p by (simp add: load_callback_def)
    obtain r w where call: "v_LoadASync ?vt l (up_base p) parse save ioc (load_callback url savetype k) (world ?fm) = (r, w)"
      by force
    have load: "LoadASync ?vt url parse save ioc k savetype ?fm = (r, (IncrementOutstandingOperations ?fm)\<lparr>world := w\<rparr>)"
      using p Some call by (simp add: LoadASync_def IncrementOutstandingOperations_def cb)
    have f: "outstandingOperations ((IncrementOutstandingOperations ?fm)\<lparr>world := w\<rparr>) = outstandingOperations ?fm + 1"
      by (simp add: IncrementOutstandingOperations_def)
    show ?thesis
    proof (cases "l = MNN_loader")
      case True
      note m = MNN_load_owed[OF call[unfolded True]]
      then obtain msg where r: "r = Inr msg" by (cases r) auto
      show ?thesis
        by (rule begins_moves[of lib lib' "{#Some k#}" "[]"])
          (use m r load c Some True p assms(2,3) in \<open>simp_all add: Let_def IncrementOutstandingOperations_def owed_def
             prefix_of_def load_callback_def\<close>)
    next
      case False
      with call have "v_LoadASync other l (up_base p) parse save ioc (load_callback url savetype k) (world ?fm) = (r, w)"
        by (simp add: file_vtable_def)
      with assms(1) have w: "same_operations (world ?fm) w" unfolding others_keep_operations_def by (metis snd_conv)
      show ?thesis
      proof (cases r)
        case (Inl e)
        show ?thesis
          by (rule begins_moves[of lib lib' "{#}" "[None]"])
            (use Inl c world_owed_same[OF w] w f load Some assms(2,3) in \<open>simp_all add: Let_def owed_def
               IncrementOutstandingOperations_def same_operations_def\<close>)
      next
        case (Inr msg)
        show ?thesis
          by (rule begins_moves[of lib lib' "{#Some k#}" "[]"])
            (use Inr c False world_owed_same[OF w] w load Some p assms(2,3) in \<open>simp_all add: Let_def owed_def
               IncrementOutstandingOperations_def same_operations_def prefix_of_def load_callback_def\<close>)
      qed
    qed
  qed
qed

lemma call_save_moves:
  assumes "others_keep_operations other" and "counted {#} lib"
    and "lib' = library_step (file_vtable assign wrap uuid other) wrp (Call_SaveASync url data ioc k loc) lib"
  shows "moves {#} lib {#} lib'"
proof -
  let ?vt = "file_vtable assign wrap uuid other" and ?fm = "lib_fm lib"
  obtain p where p: "components url = Inr p" using components_returns by blast
  have wf: "\<forall>x\<in>set (fw_saves (world ?fm)). wf_save x" using assms(2) by (simp add: counted_def)
  show ?thesis
  proof (cases "savers ?fm (up_prefix p)")
    case None
    then have "lib' = lib" using p assms(3) by (simp add: SaveASync_def)
    with assms(2) show ?thesis by (simp add: moves_rest)
  next
    case (Some v)
    let ?cb = "Write_of_save ioc k data"
    obtain r w where call: "v_SaveASync ?vt v ioc ?cb (up_base p) data (up_extension p) loc (world ?fm) = (r, w)"
      by force
    note o = v_SaveASync_owed[OF assms(1) wf call]
    let ?fm1 = "(IncrementOutstandingOperations ?fm)\<lparr>world := w\<rparr>"
    have save: "SaveASync ?vt url data ioc k loc ?fm = (case r of
        Inl e \<Rightarrow> (Inl e, DecrementOutstandingOperations ioc ?fm1) | Inr _ \<Rightarrow> (Inr (), ?fm1))"
      using p Some call by (simp add: SaveASync_def IncrementOutstandingOperations_def split: sum.split)
    show ?thesis
    proof (cases r)
      case (Inl e)
      have "0 < outstandingOperations ?fm1"
        using assms(2) by (simp add: counted_def IncrementOutstandingOperations_def)
      note d = Decrement_facts[OF this, of ioc]
      have lib': "lib' = lib\<lparr>lib_fm := DecrementOutstandingOperations ioc ?fm1\<rparr>"
        using Inl save assms(3) by simp
      have c: "counted {#} lib'"
        using Inl o d assms(2) unfolding lib' by (simp add: counted_def owed_def IncrementOutstandingOperations_def)
      have l: "ledger_of {#} lib' = (ledger_of {#} lib)\<lparr>lg_stops := stopped ?fm @
          (if outstandingOperations ?fm = 0 then [ioc] else [])\<rparr>"
        using Inl o d unfolding lib' by (simp add: ledger_of_def owed_def IncrementOutstandingOperations_def)
      show ?thesis
      proof (cases "outstandingOperations ?fm = 0")
        case True
        then have "owed lib = {#}" "lib_leaked lib = []" using assms(2) by (simp_all add: counted_def tally_zero)
        then have "ledger_step (ledger_of {#} lib) (ledger_of {#} lib')"
          using ledger_step.refused[of "ledger_of {#} lib" ioc] True unfolding l by (simp add: ledger_of_def)
        with c show ?thesis by (simp add: moves_def)
      next
        case False
        with l c show ?thesis by (intro moves_rest) (simp_all add: ledger_of_def)
      qed
    next
      case (Inr u)
      let ?N = "if v \<noteq> MNN_saver \<or> \<not> no_names data then {#k#} else {#}"
      let ?L = "if v \<noteq> MNN_saver \<or> \<not> no_names data then [] else [k]"
      show ?thesis
        by (rule begins_moves[of lib lib' ?N ?L])
          (use Inr wf o save Some p assms(2,3) in \<open>auto simp: Let_def owed_def IncrementOutstandingOperations_def
             prefix_of_def split: option.splits\<close>)
    qed
  qed
qed

lemma world_simps [simp]:
  "world (IncrementOutstandingOperations fm) = world fm"
  "world (DecrementOutstandingOperations ioc fm) = world fm"
  "world (call_final k b fm) = world fm"
  "world (handle_write cb ioc fm) = world fm"
  by (auto simp: IncrementOutstandingOperations_def DecrementOutstandingOperations_def stop_ioc_def
      call_final_def handle_write_def Let_def split: write_callback.splits option.splits)

text \<open>A call keeps of the world what the virtual methods keep.\<close>

lemma call_keeps_world:
  assumes "I (world fm)"
  shows "(\<And>l n cb. I (snd (v_LoadASync vt l n parse save ioc cb (world fm)))) \<Longrightarrow>
      I (world (snd (LoadASync vt url parse save ioc k savetype fm)))"
    "(\<And>v cb n sfx. I (snd (v_SaveASync vt v ioc cb n data sfx loc (world fm)))) \<Longrightarrow>
      I (world (snd (SaveASync vt url data ioc final loc fm)))"
    "(\<And>l n. I (snd (v_LoadFile vt l n (world fm)))) \<Longrightarrow> (\<And>q d w. I w \<Longrightarrow> I (snd (v_ParseData vt q d w))) \<Longrightarrow>
      I (world (snd (LoadFile vt url parse fm)))"
    "(\<And>v n. I (snd (v_SaveFile vt v n contents (world fm)))) \<Longrightarrow>
      I (world (snd (SaveFile vt url contents fm)))"
proof -
  assume keeps: "\<And>l n cb. I (snd (v_LoadASync vt l n parse save ioc cb (world fm)))"
  show "I (world (snd (LoadASync vt url parse save ioc k savetype fm)))"
    using assms by (simp add: LoadASync_def Let_def case_prod_beta keeps split: sum.split option.split)
next
  assume keeps: "\<And>v cb n sfx. I (snd (v_SaveASync vt v ioc cb n data sfx loc (world fm)))"
  obtain p where p: "components url = Inr p" using components_returns by blast
  show "I (world (snd (SaveASync vt url data ioc final loc fm)))"
  proof (cases "savers fm (up_prefix p)")
    case (Some v)
    obtain r w where r: "v_SaveASync vt v ioc (Write_of_save ioc final data) (up_base p) data (up_extension p) loc (world fm) =
        (r, w)" by force
    with keeps[of v "Write_of_save ioc final data" "up_base p" "up_extension p"] p Some show ?thesis
      by (simp add: SaveASync_def Let_def split: sum.split)
  qed (use assms p in \<open>simp add: SaveASync_def\<close>)
next
  assume load: "\<And>l n. I (snd (v_LoadFile vt l n (world fm)))"
    and parse: "\<And>q d w. I w \<Longrightarrow> I (snd (v_ParseData vt q d w))"
  obtain p where p: "components url = Inr p" using components_returns by blast
  show "I (world (snd (LoadFile vt url parse fm)))"
  proof (cases "loaders fm (up_prefix p)")
    case (Some l)
    obtain r w where r: "v_LoadFile vt l (up_base p) (world fm) = (r, w)" by force
    then have w: "I w" using load[of l "up_base p"] by simp
    with parse[OF w] r p Some show ?thesis
      by (simp add: LoadFile_def ParseData_def case_prod_beta split: sum.split option.split)
  qed (use assms p in \<open>simp add: LoadFile_def\<close>)
next
  assume keeps: "\<And>v n. I (snd (v_SaveFile vt v n contents (world fm)))"
  show "I (world (snd (SaveFile vt url contents fm)))"
    using assms by (simp add: SaveFile_def Let_def case_prod_beta keeps split: sum.split option.split)
qed

lemma call_keeps_rest:
  "outstandingOperations (snd (LoadFile vt url parse fm)) = outstandingOperations fm"
  "finals (snd (LoadFile vt url parse fm)) = finals fm" "stopped (snd (LoadFile vt url parse fm)) = stopped fm"
  "outstandingOperations (snd (SaveFile vt url contents fm)) = outstandingOperations fm"
  "finals (snd (SaveFile vt url contents fm)) = finals fm" "stopped (snd (SaveFile vt url contents fm)) = stopped fm"
  by (simp_all add: LoadFile_def SaveFile_def ParseData_def case_prod_beta split: sum.split option.split)

lemma same_operations_trans: "same_operations w1 w2 \<Longrightarrow> same_operations w2 w3 \<Longrightarrow> same_operations w1 w3"
  by (simp add: same_operations_def)

lemma sync_call_same:
  assumes "others_keep_operations other"
  shows "same_operations (world fm) (world (snd (LoadFile (file_vtable assign wrap uuid other) url parse fm)))"
    "same_operations (world fm) (world (snd (SaveFile (file_vtable assign wrap uuid other) url contents fm)))"
proof -
  let ?vt = "file_vtable assign wrap uuid other"
  have refl: "same_operations w w" for w :: "'c file_world" by (simp add: same_operations_def)
  have vt: "same_operations w (snd (v_LoadFile ?vt l n w))" "same_operations w (snd (v_ParseData ?vt q d w))"
    "same_operations w (snd (v_SaveFile ?vt v n d w))" for l n q d v w
    using assms refl by (auto simp: others_keep_operations_def file_vtable_def same_operations_def split: prod.splits)
  show "same_operations (world fm) (world (snd (LoadFile ?vt url parse fm)))"
    by (rule call_keeps_world(3)[where I = "same_operations (world fm)"])
      (use refl vt same_operations_trans in blast)+
  show "same_operations (world fm) (world (snd (SaveFile ?vt url contents fm)))"
    by (rule call_keeps_world(4)[where I = "same_operations (world fm)"]) (use refl vt in blast)+
qed

lemma moves_same:
  assumes "counted {#} lib" and "same_operations (world (lib_fm lib)) (world fm)"
    and "outstandingOperations fm = outstandingOperations (lib_fm lib)" and "finals fm = finals (lib_fm lib)"
    and "stopped fm = stopped (lib_fm lib)"
  shows "moves {#} lib {#} (lib\<lparr>lib_fm := fm\<rparr>)"
  by (rule moves_rest)
    (use assms world_owed_same[OF assms(2)] in \<open>simp_all add: counted_def ledger_of_def owed_def same_operations_def\<close>)

lemma other_read_moves:
  assumes "others_keep_operations other" and "counted {#} lib" and "i < length (lib_reads lib)"
    and "lib_reads lib ! i = (cb, ioc)"
    and "lib' = finish_read (file_vtable assign wrap uuid other) cb ioc r parse save
      (lib\<lparr>lib_reads := remove_nth i (lib_reads lib)\<rparr>)"
  shows "moves {#} lib {#} lib'"
proof -
  let ?lib0 = "lib\<lparr>lib_reads := remove_nth i (lib_reads lib)\<rparr>"
  have o: "owed lib = add_mset (Some (rc_finalcall cb)) (owed ?lib0)"
    using mset_remove[OF assms(3), of "\<lambda>(cb, ioc). Some (rc_finalcall cb)"] assms(4) by (simp add: owed_def ac_simps)
  have "counted {#Some (rc_finalcall cb)#} ?lib0" using assms(2) o by (simp add: counted_def)
  from finish_read_moves[OF assms(1) this assms(5)] o show ?thesis by (simp add: moves_def ledger_of_def)
qed

lemma other_write_moves:
  assumes "counted {#} lib" and "i < length (lib_writes lib)" and "lib_writes lib ! i = (cb, ioc)"
    and "lib' = lib\<lparr>lib_fm := handle_write cb ioc (lib_fm lib), lib_writes := remove_nth i (lib_writes lib)\<rparr>"
  shows "moves {#} lib {#} lib'"
proof -
  have w: "world (handle_write cb ioc fm) = world fm" for fm :: "('a, 'b) file_library"
    by (auto simp: handle_write_def DecrementOutstandingOperations_def stop_ioc_def call_final_def Let_def
        split: write_callback.splits option.splits)
  have o: "{#} + owed lib = add_mset (write_final cb) ({#} + owed lib')"
    using mset_remove[OF assms(2), of "\<lambda>(cb, ioc). write_final cb"] assms(3,4) by (simp add: owed_def w)
  have saves: "\<forall>x\<in>set (fw_saves (world (lib_fm lib))). wf_save x" using assms(1) by (simp add: counted_def)
  show ?thesis
    by (rule ends_moves[OF assms(1) o, where ioc = "ioc_of ioc cb"])
      (use handle_write_facts[OF last_operation(1)[OF assms(1) o], of cb ioc] saves assms(4) in simp_all)
qed

lemma library_step_moves:
  assumes "others_keep_operations other" and "counted {#} lib"
    and "lib' = library_step (file_vtable assign wrap uuid other) wrp e lib"
  shows "moves {#} lib {#} lib'"
proof -
  have same: "moves {#} lib {#} lib" using assms(2) by (simp add: moves_rest)
  show ?thesis
  proof (cases e)
    case (Call_LoadASync url parse save ioc k savetype)
    with call_load_moves[OF assms(1,2)] assms(3) show ?thesis by blast
  next
    case (Call_SaveASync url data ioc k loc)
    with call_save_moves[OF assms(1,2)] assms(3) show ?thesis by blast
  next
    case (Call_LoadFile url parse)
    with moves_same[OF assms(2) sync_call_same(1)[OF assms(1)]] assms(3) show ?thesis
      by (simp add: call_keeps_rest)
  next
    case (Call_SaveFile url data)
    with moves_same[OF assms(2) sync_call_same(2)[OF assms(1)]] assms(3) show ?thesis
      by (simp add: call_keeps_rest)
  next
    case (Run_handler fe)
    show ?thesis
    proof (cases fe)
      case (File_read k ec data)
      with Run_handler local_read_moves[OF assms(1,2)] assms(3) same show ?thesis
        by (cases "k < length (fw_loads (world (lib_fm lib)))") simp_all
    next
      case (File_write k i n)
      with Run_handler file_write_moves[OF assms(2)] assms(3) same show ?thesis
        by (cases "k < length (fw_saves (world (lib_fm lib)))") simp_all
    next
      case File_posted
      with Run_handler have "library_step (file_vtable assign wrap uuid other) wrp e lib =
          lib\<lparr>lib_fm := file_step (file_vtable assign wrap uuid other) wrp (lib_fm lib) File_posted\<rparr>"
        by (simp del: file_step.simps)
      with file_posted_moves[OF assms(2)] assms(3) show ?thesis by blast
    qed
  next
    case (Other_read i r parse save)
    obtain cb ioc where i: "lib_reads lib ! i = (cb, ioc)" by force
    with Other_read other_read_moves[OF assms(1,2) _ i] assms(3) same show ?thesis
      by (cases "i < length (lib_reads lib)") simp_all
  next
    case (Other_write i)
    obtain cb ioc where i: "lib_writes lib ! i = (cb, ioc)" by force
    with Other_write other_write_moves[OF assms(2) _ i] assms(3) same show ?thesis
      by (cases "i < length (lib_writes lib)") simp_all
  qed
qed

text \<open>A library that starts idle.\<close>

definition idle_library :: "('p, 'e) file_library \<Rightarrow> bool" where
  "idle_library fm \<longleftrightarrow> outstandingOperations fm = 0 \<and> finals fm = [] \<and> stopped fm = [] \<and>
     fw_loads (world fm) = [] \<and> fw_saves (world fm) = [] \<and> fw_posted (world fm) = []"

lemma library_step_counted:
  "others_keep_operations other \<Longrightarrow> counted {#} lib \<Longrightarrow>
   counted {#} (library_step (file_vtable assign wrap uuid other) wrp e lib)"
  using library_step_moves[OF _ _ refl, unfolded moves_def] by blast

lemma library_step_ledger:
  "others_keep_operations other \<Longrightarrow> counted {#} lib \<Longrightarrow>
   ledger_step (ledger_of {#} lib) (ledger_of {#} (library_step (file_vtable assign wrap uuid other) wrp e lib))"
  using library_step_moves[OF _ _ refl, unfolded moves_def] by blast

interpretation library: refines_ledger "library_step (file_vtable assign wrap uuid other) wrp"
  "\<lambda>lib. others_keep_operations other \<and> counted {#} lib" "ledger_of {#}"
  for assign wrap uuid and other :: "('p, 'e) library_vtable" and wrp
  by unfold_locales (auto intro: library_step_counted library_step_ledger)

lemma library_start_counted:
  "idle_library fm \<Longrightarrow> counted {#} (library_start fm) \<and> ledger_of {#} (library_start fm) = empty_ledger"
  by (simp add: idle_library_def counted_def ledger_of_def owed_def world_owed_def library_start_def empty_ledger_def)




lemma others_keep_accepting_operations: "others_keep_operations accepting_handlers"
  by (simp add: others_keep_operations_def same_operations_def accepting_handlers_def)

text \<open>
  A load that saves its file, a load of a file that does not exist, a load over https of
  another loader and a save of no names; the first is read, the second's error is posted.
\<close>

definition library_sample :: "unit library_event list" where
  "library_sample = [Call_LoadASync ''file:///d/f'' False True 4 7 ''file'', Call_LoadASync ''file:///none'' False False 4 8 [],
     Call_LoadASync ''https://h/x'' False False 4 9 [], Call_SaveASync ''file:///e/'' (Inr (Some ([], [''z'']))) 4 (Some 6) None,
     Run_handler (File_read 0 ec_eof ''hi''), Run_handler File_posted]"

lemma library_sample_result:
  "let lib = library_run sample_vtable (\<lambda>_. ()) library_sample (library_start sample_files)
   in outstandingOperations (lib_fm lib) = 3 \<and> map fst (finals (lib_fm lib)) = [7, 8] \<and>
      lib_leaked lib = [Some 6] \<and> lib_requested lib = [7, 8, 9, 6]"
  by code_simp

lemma sample_files_idle: "idle_library sample_files"
  using sample_files_ready
  by (simp add: idle_library_def) (simp add: sample_files_def init_defs init_register_defs start_of_program_def)




end
