(* ===== verification/FileDescriptors.thy ===== *)
theory FileDescriptors
  imports LibraryRuns
begin

text \<open>
  Who owns the open descriptors: the local loader and saver behind \<open>FileManager\<close>, with any
  number of loads and saves in flight at the same time (\<open>src/FileManager.cpp\<close>,
  \<open>src/MNNLoader.cpp\<close>, \<open>src/MNNSaver.cpp\<close>, \<open>src/FILECommon.cpp\<close>).
\<close>

section \<open>Opening and closing\<close>

named_theorems fds_simps "what an operation does to the descriptor table"

lemma make_dirs_fds: "make_dirs q cs s = (r, s') \<Longrightarrow> os_fds s' = os_fds s"
proof (induction cs arbitrary: q s)
  case (Cons c cs)
  from Cons.prems show ?case by (cases rule: make_dirs_Cons_cases) (use Cons.IH in auto)
qed simp

lemma create_directories_fds: "create_directories p s = (r, s') \<Longrightarrow> os_fds s' = os_fds s"
  by (auto simp: create_directories_def dest: make_dirs_fds split: if_splits)

lemma open_create_fds: "open_create p s = (r, s') \<Longrightarrow> os_fds s' = os_fds s"
  by (auto simp: open_create_def Let_def split: if_splits option.splits node.splits)

lemma ofstream_fds: "ofstream_open p s = (b, s') \<Longrightarrow> os_fds s' = os_fds s"
  by (auto simp: ofstream_open_def dest!: open_create_fds split: prod.splits sum.splits)

lemma write_fds [fds_simps]: "os_fds (write_at_start q bs s) = os_fds s"
  by (auto simp: write_at_start_def split: option.splits node.splits)

lemma destroy_fds [fds_simps]: "os_fds (destroy_FILEDevice dev s) = filter (\<lambda>n. int n \<noteq> fd_fd dev) (os_fds s)"
  by (simp add: destroy_FILEDevice_def destroy_close_number_def destroy_close_stream_def close_fd_def)

lemma SaveFile_fds: "MNNSaver_SaveFile f d s = (r, s') \<Longrightarrow> os_fds s' = os_fds s"
  by (auto simp: MNNSaver_SaveFile_def fds_simps dest: ofstream_fds split: option.splits prod.splits bool.splits)

lemma posix_open_errno: "posix_open p flags s = (Inl e, s') \<Longrightarrow> e \<noteq> 0 \<and> os_fds s' = os_fds s"
  by (auto simp: posix_open_def open_create_def open_read_def errno_ENOENT_def errno_EISDIR_def Let_def
      split: open_flags.splits sum.splits prod.splits if_splits option.splits node.splits)

text \<open>A device holds a new descriptor when opening it succeeded and none otherwise.\<close>

lemma Open_fds:
  assumes "FILEDevice_Open assign dev s = (ec, dev', s')"
  shows "ec_failed ec \<Longrightarrow> fd_fd dev' = - 1 \<and> os_fds s' = os_fds s"
    "\<not> ec_failed ec \<Longrightarrow> \<exists>n. fd_fd dev' = int n \<and> n \<notin> set (os_fds s) \<and> os_fds s' = n # os_fds s"
proof -
  obtain r s1 where o: "posix_open (fd_name dev) (fd_flags dev) s = (r, s1)" by force
  have "(ec_failed ec \<longrightarrow> fd_fd dev' = - 1 \<and> os_fds s' = os_fds s) \<and>
    (\<not> ec_failed ec \<longrightarrow> (\<exists>n. fd_fd dev' = int n \<and> n \<notin> set (os_fds s) \<and> os_fds s' = n # os_fds s))"
  proof (cases r)
    case (Inl e)
    with posix_open_errno[OF o[unfolded Inl]] o assms show ?thesis
      by (auto simp: FILEDevice_Open_def ec_failed_def)
  next
    case (Inr x)
    obtain fd q where x: "x = (fd, q)" by force
    note f = posix_open_fd[OF o[unfolded Inr x]] free_fd_not_open[of "os_fds s"]
    then have "filter (\<lambda>n. n \<noteq> fd) (os_fds s) = os_fds s" by (auto simp: filter_id_conv)
    with f o Inr x assms show ?thesis
      by (auto simp: FILEDevice_Open_def close_fd_def split: if_splits)
  qed
  then show "ec_failed ec \<Longrightarrow> fd_fd dev' = - 1 \<and> os_fds s' = os_fds s"
    "\<not> ec_failed ec \<Longrightarrow> \<exists>n. fd_fd dev' = int n \<and> n \<notin> set (os_fds s) \<and> os_fds s' = n # os_fds s"
    by blast+
qed

section \<open>The descriptors of a load and of a save\<close>

text \<open>The descriptors a list of devices holds; a device that could not be opened holds \<open>-1\<close>.\<close>

definition held :: "file_device list \<Rightarrow> nat multiset" where
  "held devs = mset (map (\<lambda>d. nat (fd_fd d)) (filter (\<lambda>d. 0 \<le> fd_fd d) devs))"

lemma held_simps [simp]:
  "held [] = {#}" "held (d # ds) = (if 0 \<le> fd_fd d then add_mset (nat (fd_fd d)) (held ds) else held ds)"
  "held (ds @ es) = held ds + held es"
  by (simp_all add: held_def)

text \<open>The table consists of the descriptors \<open>B\<close> and those of the devices, without duplicates.\<close>

definition owns :: "nat multiset \<Rightarrow> file_device list \<Rightarrow> 'x os_scheme \<Rightarrow> bool" where
  "owns B devs s \<longleftrightarrow> distinct (os_fds s) \<and> mset (os_fds s) = B + held devs"

lemma owns_fds: "os_fds s' = os_fds s \<Longrightarrow> owns B devs s' = owns B devs s"
  by (simp add: owns_def)

lemma owns_Open:
  assumes "FILEDevice_Open assign dev s = (ec, dev', s')" and "owns B devs s"
  shows "owns B (devs @ [dev']) s'" "ec_failed ec \<Longrightarrow> owns B devs s'"
  using Open_fds[OF assms(1)] assms(2) by (cases "ec_failed ec"; auto simp: owns_def)+

lemma owns_destroy:
  assumes "owns B (devs @ [d]) s"
  shows "owns B devs (destroy_FILEDevice d s)"
proof (cases "0 \<le> fd_fd d")
  case True
  then obtain n where n: "fd_fd d = int n" by (metis zero_le_imp_eq_int)
  have m: "mset (os_fds s) = add_mset n (B + held devs)" and dist: "distinct (os_fds s)"
    using assms n by (simp_all add: owns_def)
  from m have "n \<in> set (os_fds s)" by (metis set_mset_mset union_single_eq_member add_mset_add_single)
  then obtain a b where ab: "os_fds s = a @ n # b" by (meson split_list)
  with dist have "filter (\<lambda>k. k \<noteq> n) a = a" "filter (\<lambda>k. k \<noteq> n) b = b"
    by (auto simp: filter_id_conv)
  with ab have "filter (\<lambda>k. int k \<noteq> int n) (os_fds s) = a @ b" by simp
  with m dist ab n show ?thesis by (simp add: owns_def fds_simps)
next
  case False
  then have "filter (\<lambda>n. int n \<noteq> fd_fd d) (os_fds s) = os_fds s" by (auto simp: filter_id_conv)
  with False assms show ?thesis by (simp add: owns_def fds_simps)
qed

lemma owns_append: "owns B (ds @ es) s \<longleftrightarrow> owns (B + held ds) es s"
  by (simp add: owns_def ac_simps)

lemma owns_held: "held ds = held es \<Longrightarrow> owns B ds s = owns B es s"
  by (simp add: owns_def)

lemma held_remove:
  assumes "k < length ds"
  shows "held ds = held ((take k ds @ drop (Suc k) ds) @ [ds ! k])"
proof -
  have "held ds = held (take k ds @ ds ! k # drop (Suc k) ds)"
    using id_take_nth_drop[OF assms] by simp
  then show ?thesis by simp
qed

text \<open>Destroying any of the devices gives back its descriptor and no other.\<close>

lemma owns_remove:
  assumes "owns B ds s" and "k < length ds"
  shows "owns B (take k ds @ drop (Suc k) ds) (destroy_FILEDevice (ds ! k) s)"
  by (rule owns_destroy) (use assms owns_held[OF held_remove[OF assms(2)]] in blast)

definition save_owns :: "nat multiset \<Rightarrow> 'x mnn_save \<Rightarrow> bool" where
  "save_owns B ms \<longleftrightarrow> owns B (ms_devices ms) (ms_os ms) \<and> length (ms_devices ms) = length (ms_writes ms)"

lemma mnn_save_file_owns:
  assumes "mnn_save_file assign p contents ms = (r, ms1, as)" and "contents \<noteq> []" and "save_owns B ms"
  shows "save_owns B ms1"
proof -
  obtain rc s1 where cd: "create_directories (path_parent p) (ms_os ms) = (rc, s1)" by force
  obtain b s2 where os: "ofstream_open p s1 = (b, s2)" by force
  obtain ec dev s3 where fo: "FILEDevice_Open assign (FILEDevice p 1) s2 = (ec, dev, s3)" by (metis prod_cases3)
  have "owns B (ms_devices ms) s1" "owns B (ms_devices ms) s2"
    using assms(3) create_directories_fds[OF cd] ofstream_fds[OF os] by (simp_all add: save_owns_def owns_def)
  with owns_Open[OF fo this(2)] assms cd os fo show ?thesis
    by (auto simp: mnn_save_file_def save_owns_def Let_def split: sum.splits if_splits list.splits)
qed

lemma mnn_save_loop_owns:
  "mnn_save_loop assign d names contents ms = (r, ms', as) \<Longrightarrow> length names \<le> length contents \<Longrightarrow>
   save_owns B ms \<Longrightarrow> save_owns B ms'"
proof (induction names arbitrary: contents ms)
  case (Cons n names)
  then have ne: "contents \<noteq> []" by auto
  from Cons.prems(1) show ?case
  proof (cases rule: mnn_save_loop_Cons_cases)
    case (go ms1)
    from Cons.IH[OF go(2) _ mnn_save_file_owns[OF go(1) ne Cons.prems(3)]] Cons.prems(2)
    show ?thesis by simp
  qed (use mnn_save_file_owns[OF _ ne Cons.prems(3)] in blast)+
qed simp

text \<open>Data in which every name has a content; otherwise the loop reads out of range.\<close>

fun full_data :: "'e result_type \<Rightarrow> bool" where
  "full_data (Inr (Some (names, contents))) \<longleftrightarrow> length names \<le> length contents"
| "full_data _ = True"

lemma SaveASync_owns:
  assumes "MNNSaver_SaveASync assign uuid filename data sfx loc s = (r, ms, as)" and "full_data data"
    and "owns B [] s"
  shows "save_owns B ms"
proof (cases "\<exists>names contents. data = Inr (Some (names, contents)) \<and> contents \<noteq> []")
  case True
  then obtain names contents where d: "data = Inr (Some (names, contents))" "contents \<noteq> []" by blast
  let ?ms0 = "\<lparr>ms_os = s, ms_remaining = length names, ms_writes = [], ms_devices = []\<rparr>"
  obtain bs where "mnn_save_loop assign (if filename = [] then uuid @ ''/'' else filename) names contents ?ms0 =
      (r, ms, bs)"
    using assms(1) d by (auto simp: MNNSaver_SaveASync_def Let_def split: prod.splits)
  from mnn_save_loop_owns[OF this, of B] assms(2,3) d show ?thesis by (simp add: save_owns_def)
next
  case False
  with assms show ?thesis
    by (auto simp: MNNSaver_SaveASync_def save_owns_def split: sum.splits option.splits prod.splits if_splits)
qed

lemma mnn_save_step_owns:
  assumes "mnn_save_step ms e = (ms', as)" and "save_owns B ms"
  shows "save_owns B ms'"
proof -
  obtain k n where e: "e = Mnn_write_done k n" by (cases e)
  obtain q bs where w: "ms_writes ms ! k = (q, bs)" by force
  have "owns B (take k (ms_devices ms) @ drop (Suc k) (ms_devices ms))
      (destroy_FILEDevice (ms_devices ms ! k) (write_at_start q (take n bs) (ms_os ms)))"
    if "k < length (ms_writes ms)"
  proof (rule owns_remove)
    show "owns B (ms_devices ms) (write_at_start q (take n bs) (ms_os ms))" "k < length (ms_devices ms)"
      using that assms(2) by (simp_all add: save_owns_def owns_def fds_simps)
  qed
  with assms e w show ?thesis by (auto simp: save_owns_def Let_def split: if_splits)
qed

text \<open>
  The local saver leaks no descriptor: as long as every name has a content, at every
  moment the open descriptors are those that were open before the save and, without
  duplicates, one for each write still pending; also when a directory cannot be made, a file
  cannot be opened or a write fails. When the last write has been handled the table is as
  it was.
\<close>

theorem mnn_save_releases_descriptors:
  assumes "MNNSaver_SaveASync assign uuid filename data sfx loc s = (r, ms, as0)" and "full_data data"
    and "distinct (os_fds s)" and "dev_run mnn_save_step ms es = (ms', as)"
  shows "distinct (os_fds (ms_os ms')) \<and>
    mset (os_fds (ms_os ms')) = mset (os_fds s) + held (ms_devices ms') \<and>
    length (ms_devices ms') = length (ms_writes ms') \<and>
    (ms_writes ms' = [] \<longrightarrow> set (os_fds (ms_os ms')) = set (os_fds s))"
proof -
  have "owns (mset (os_fds s)) [] s" using assms(3) by (simp add: owns_def)
  from SaveASync_owns[OF assms(1,2) this] have "save_owns (mset (os_fds s)) ms" .
  from dev_run_invariant[where I = "save_owns (mset (os_fds s))" and Q = "\<lambda>_. True", OF assms(4) this]
    mnn_save_step_owns have inv: "save_owns (mset (os_fds s)) ms'" by blast
  then have "distinct (os_fds (ms_os ms'))" "length (ms_devices ms') = length (ms_writes ms')"
    and m: "mset (os_fds (ms_os ms')) = mset (os_fds s) + held (ms_devices ms')"
    by (simp_all add: save_owns_def owns_def)
  moreover have "set (os_fds (ms_os ms')) = set (os_fds s)" if "ms_writes ms' = []"
  proof (rule mset_eq_setD)
    from calculation(2) that have "ms_devices ms' = []" by simp
    with m show "mset (os_fds (ms_os ms')) = mset (os_fds s)" by simp
  qed
  ultimately show ?thesis by simp
qed

section \<open>All loads and saves of the library\<close>

text \<open>The devices of the reads in flight and of the pending writes.\<close>

definition world_devices :: "'e file_world \<Rightarrow> file_device list" where
  "world_devices w = map (\<lambda>(ml, cb, ioc). ml_device ml) (fw_loads w) @
     concat (map (\<lambda>(n, ws, ds, cb, ioc). ds) (fw_saves w))"

fun device_per_write :: "nat \<times> (string list \<times> bytes) list \<times> file_device list \<times> 'e write_callback \<times> nat \<Rightarrow> bool" where
  "device_per_write (n, ws, ds, cb, ioc) \<longleftrightarrow> length ds = length ws"

definition world_owns :: "nat multiset \<Rightarrow> 'e file_world \<Rightarrow> bool" where
  "world_owns B w \<longleftrightarrow> owns B (world_devices w) (fw_os w) \<and>
     (\<forall>x\<in>set (fw_saves w). device_per_write x)"

lemma world_owns_posted [simp]: "world_owns B (w\<lparr>fw_posted := ps\<rparr>) = world_owns B w"
  by (simp add: world_owns_def world_devices_def)

lemma world_owns_cong:
  "fw_loads w' = fw_loads w \<Longrightarrow> fw_saves w' = fw_saves w \<Longrightarrow> os_fds (fw_os w') = os_fds (fw_os w) \<Longrightarrow>
   world_owns B w' = world_owns B w"
  by (simp add: world_owns_def world_devices_def owns_def)

lemma local_load_owns:
  assumes "local_load assign wrap filename parse save ioc cb w = (r, w')" and "world_owns B w"
  shows "world_owns B w'"
proof -
  obtain ec dev s1 where o: "FILEDevice_Open assign (FILEDevice filename 0) (fw_os w) = (ec, dev, s1)"
    by (metis prod_cases3)
  note owned = owns_Open(1)[OF o, of B "world_devices w"]
  have w': "held (world_devices w') = held (world_devices w @ [dev])" "fw_os w' = s1" "fw_saves w' = fw_saves w"
    using assms(1) o
    by (auto simp: local_load_def MNNLoader_LoadASync_def world_devices_def Let_def split: if_splits)
  from assms(2) owned show ?thesis by (simp add: world_owns_def owns_def w' del: held_simps)
qed

lemma local_save_owns:
  assumes "local_save assign uuid ioc cb filename data sfx loc w = (r, w')" and "world_owns B w"
    and "full_data data"
  shows "world_owns B w'"
proof -
  obtain r1 ms as where sv: "MNNSaver_SaveASync assign uuid filename data sfx (loc \<noteq> None) (fw_os w) = (r1, ms, as)"
    by (metis prod_cases3)
  have w': "fw_os w' = ms_os ms" "fw_loads w' = fw_loads w"
      "fw_saves w' = fw_saves w @ [(ms_remaining ms, ms_writes ms, ms_devices ms, cb, ioc)]"
    using assms(1) sv by (auto simp: local_save_def)
  have "owns (B + held (world_devices w)) [] (fw_os w)"
    using assms(2) by (simp add: world_owns_def flip: owns_append)
  from SaveASync_owns[OF sv assms(3) this]
  have "owns B (world_devices w @ ms_devices ms) (ms_os ms)" "length (ms_devices ms) = length (ms_writes ms)"
    by (simp_all add: save_owns_def owns_append)
  with assms(2) w' show ?thesis by (auto simp: world_owns_def world_devices_def)
qed

text \<open>
  The other handlers hold no descriptor of this table between two calls and do not touch
  the loads and saves of the local ones.
\<close>

definition same_descriptors :: "'e file_world \<Rightarrow> 'e file_world \<Rightarrow> bool" where
  "same_descriptors w w' \<longleftrightarrow> fw_loads w' = fw_loads w \<and> fw_saves w' = fw_saves w \<and>
     os_fds (fw_os w') = os_fds (fw_os w)"

definition others_keep :: "('l, 'p, 's, 'e file_world, 'e) vtable \<Rightarrow> bool" where
  "others_keep vt \<longleftrightarrow>
     (\<forall>l n w. same_descriptors w (snd (v_LoadFile vt l n w))) \<and>
     (\<forall>l n p s ioc cb w. same_descriptors w (snd (v_LoadASync vt l n p s ioc cb w))) \<and>
     (\<forall>p d w. same_descriptors w (snd (v_ParseData vt p d w))) \<and>
     (\<forall>v n d w. same_descriptors w (snd (v_SaveFile vt v n d w))) \<and>
     (\<forall>v ioc cb n d sfx loc w. same_descriptors w (snd (v_SaveASync vt v ioc cb n d sfx loc w)))"

lemma world_owns_same: "same_descriptors w w' \<Longrightarrow> world_owns B w \<Longrightarrow> world_owns B w'"
  using world_owns_cong by (auto simp: same_descriptors_def)

text \<open>The virtual methods keep the accounts.\<close>

lemma vtable_owns:
  assumes "others_keep other" and "world_owns B w"
  shows "world_owns B (snd (v_LoadFile (file_vtable assign wrap uuid other) l n w))"
    "world_owns B (snd (v_LoadASync (file_vtable assign wrap uuid other) l n p s ioc rcb w))"
    "world_owns B (snd (v_ParseData (file_vtable assign wrap uuid other) q d w))"
    "world_owns B (snd (v_SaveFile (file_vtable assign wrap uuid other) v n d w))"
    "full_data data \<Longrightarrow>
     world_owns B (snd (v_SaveASync (file_vtable assign wrap uuid other) v ioc cb n data sfx loc w))"
proof -
  have same: "same_descriptors w w' \<Longrightarrow> world_owns B w'" for w' using world_owns_same assms(2) by blast
  note o = assms(1)[unfolded others_keep_def]
  show "world_owns B (snd (v_LoadFile (file_vtable assign wrap uuid other) l n w))"
    "world_owns B (snd (v_ParseData (file_vtable assign wrap uuid other) q d w))"
    using o same assms(2) by (simp_all add: file_vtable_def)
  show "world_owns B (snd (v_LoadASync (file_vtable assign wrap uuid other) l n p s ioc rcb w))"
    using o same local_load_owns[OF prod.collapse[symmetric] assms(2)] by (simp add: file_vtable_def)
  show "full_data data \<Longrightarrow>
     world_owns B (snd (v_SaveASync (file_vtable assign wrap uuid other) v ioc cb n data sfx loc w))"
    using o same local_save_owns[OF prod.collapse[symmetric] assms(2)] by (simp add: file_vtable_def)
  obtain r s1 where sf: "MNNSaver_SaveFile n d (fw_os w) = (r, s1)" by force
  have "same_descriptors w (w\<lparr>fw_os := s1\<rparr>)" using SaveFile_fds[OF sf] by (simp add: same_descriptors_def)
  with o same sf show "world_owns B (snd (v_SaveFile (file_vtable assign wrap uuid other) v n d w))"
    by (simp add: file_vtable_def)
qed

lemma handle_read_owns:
  assumes "others_keep other" and "world_owns B (world fm)" and "full_data data"
  shows "world_owns B (world (snd (handle_read (file_vtable assign wrap uuid other) cb ioc data parse save fm)))"
proof -
  let ?vt = "file_vtable assign wrap uuid other"
  have "world_owns B (world (snd (case v_SaveASync ?vt saver ioc Write_of_load [] data (rc_suffix cb) None (world fm) of
      (Inl e, w) \<Rightarrow> (Inl e, fm\<lparr>world := w\<rparr>)
    | (Inr _, w) \<Rightarrow> (Inr (), call_final (rc_finalcall cb) data (fm\<lparr>world := w\<rparr>)))))" for saver
    using vtable_owns(5)[OF assms(1,2), of data assign wrap uuid saver ioc Write_of_load "[]" "rc_suffix cb" None] assms(3)
    by (auto split: prod.splits sum.splits)
  with assms(2) show ?thesis
    by (auto simp: handle_read_def split: sum.splits option.splits)
qed

lemma deliver_owns:
  assumes "others_keep other" and "\<forall>a\<in>set as. \<forall>r\<in>set (result_of a). full_data (map_sum wrp (\<lambda>b. b) r)"
    and "world_owns B (world fm)"
  shows "world_owns B (world (deliver (file_vtable assign wrap uuid other) cb ioc wrp as fm))"
  using assms(2,3)
proof (induction as arbitrary: fm)
  case (Cons a as)
  have "world_owns B (world (deliver_read (file_vtable assign wrap uuid other) cb ioc wrp a fm))"
    using Cons.prems handle_read_owns[OF assms(1) Cons.prems(2)] by (cases a) auto
  with Cons show ?case by (simp add: deliver_def)
qed (simp add: deliver_def)

section \<open>The handlers\<close>

lemma held_permute: "mset ds = mset es \<Longrightarrow> held ds = held es"
  unfolding held_def by (metis mset_filter mset_map)

lemma devices_of_load:
  assumes "k < length (fw_loads w)"
  shows "held (world_devices w) = held (world_devices (w\<lparr>fw_loads := remove_nth k (fw_loads w)\<rparr>) @
    [ml_device (fst (fw_loads w ! k))])"
proof -
  let ?f = "\<lambda>(ml, cb, ioc). ml_device ml"
  have "mset (map ?f (fw_loads w)) = mset (map ?f (remove_nth k (fw_loads w)) @ [?f (fw_loads w ! k)])"
    unfolding remove_nth_def by (subst id_take_nth_drop[OF assms]) simp
  then show ?thesis unfolding world_devices_def
    by (intro held_permute) (simp add: case_prod_beta)
qed

lemma on_file_read_owns:
  assumes "others_keep other" and "world_owns B (world fm)" and "k < length (fw_loads (world fm))"
  shows "world_owns B (world (on_file_read (file_vtable assign wrap uuid other) wrp k ec data fm))"
proof -
  let ?vt = "file_vtable assign wrap uuid other" and ?w = "world fm"
  obtain ml cb ioc where k: "fw_loads ?w ! k = (ml, cb, ioc)" by (metis prod_cases3)
  obtain ml' as where st: "mnn_load_step ml (Mnn_read_done ec data) = (ml', as)" by force
  let ?w1 = "?w\<lparr>fw_loads := remove_nth k (fw_loads ?w)\<rparr>"
  let ?d = "ml_device ml"
  have "owns B (world_devices ?w1 @ [?d]) (fw_os ?w)"
    using assms(2) devices_of_load[OF assms(3)] k by (simp add: world_owns_def owns_def del: held_simps)
  then have "world_owns (B + held [?d]) ?w1"
    using assms(2) by (simp add: world_owns_def owns_def ac_simps)
  moreover have "\<forall>a\<in>set as. \<forall>r\<in>set (result_of a). full_data (map_sum wrp (\<lambda>b. b) r)"
    using st by (auto simp: mnn_on_read_def split: if_splits)
  ultimately have "world_owns (B + held [?d]) (world (deliver ?vt cb ioc wrp as (fm\<lparr>world := ?w1\<rparr>)))"
    by (intro deliver_owns[OF assms(1)]) (simp_all del: held_simps)
  moreover have "world_owns (B + held [?d]) w \<Longrightarrow> world_owns B (w\<lparr>fw_os := destroy_FILEDevice ?d (fw_os w)\<rparr>)" for w
    using owns_destroy[of B "world_devices w" ?d "fw_os w"]
    by (simp add: world_owns_def world_devices_def owns_def ac_simps)
  ultimately show ?thesis using k st by (simp add: on_file_read_def Let_def)
qed

lemma devices_of_save:
  assumes "k < length (fw_saves w)" and "fw_saves w ! k = (n, ws, ds, cb, ioc)"
  obtains R where "held (world_devices w) = R + held ds"
    "\<And>n' ws' ds' s. held (world_devices (w\<lparr>fw_os := s, fw_saves := (fw_saves w)[k := (n', ws', ds', cb, ioc)]\<rparr>)) =
       R + held ds'"
proof
  let ?f = "\<lambda>(n, ws, ds, cb, ioc). ds"
  let ?R = "held (map (\<lambda>(ml, cb, ioc). ml_device ml) (fw_loads w) @
      concat (map ?f (take k (fw_saves w))) @ concat (map ?f (drop (Suc k) (fw_saves w))))"
  show "held (world_devices w) = ?R + held ds"
    unfolding world_devices_def
    by (subst id_take_nth_drop[OF assms(1)]) (simp add: assms(2) ac_simps)
  show "held (world_devices (w\<lparr>fw_os := s, fw_saves := (fw_saves w)[k := (n', ws', ds', cb, ioc)]\<rparr>)) =
       ?R + held ds'" for n' ws' ds' s
    by (simp add: world_devices_def upd_conv_take_nth_drop assms(1) ac_simps)
qed

lemma on_file_write_owns:
  assumes "world_owns B (world fm)" and "k < length (fw_saves (world fm))"
  shows "world_owns B (world (on_file_write k i n fm))"
proof -
  let ?w = "world fm"
  obtain rem ws ds cb ioc where k: "fw_saves ?w ! k = (rem, ws, ds, cb, ioc)" by (metis prod_cases5)
  obtain ms as where st: "mnn_save_step \<lparr>ms_os = fw_os ?w, ms_remaining = rem, ms_writes = ws, ms_devices = ds\<rparr>
      (Mnn_write_done i n) = (ms, as)" by force
  let ?w1 = "?w\<lparr>fw_os := ms_os ms, fw_saves := (fw_saves ?w)[k := (ms_remaining ms, ms_writes ms, ms_devices ms, cb, ioc)]\<rparr>"
  from devices_of_save[OF assms(2) k] obtain R where R: "held (world_devices ?w) = R + held ds"
    "held (world_devices ?w1) = R + held (ms_devices ms)" by metis
  from assms(1) have "\<forall>x\<in>set (fw_saves ?w). device_per_write x"
    unfolding world_owns_def by blast
  from bspec[OF this nth_mem[OF assms(2)]] have "length ds = length ws" unfolding k by simp
  with assms(1) R(1) have "save_owns (B + R) \<lparr>ms_os = fw_os ?w, ms_remaining = rem, ms_writes = ws, ms_devices = ds\<rparr>"
    by (simp add: save_owns_def world_owns_def owns_def ac_simps)
  from mnn_save_step_owns[OF st this] have ms: "save_owns (B + R) ms" .
  have "\<forall>x\<in>set ((fw_saves ?w)[k := (ms_remaining ms, ms_writes ms, ms_devices ms, cb, ioc)]). device_per_write x"
  proof
    fix x
    assume "x \<in> set ((fw_saves ?w)[k := (ms_remaining ms, ms_writes ms, ms_devices ms, cb, ioc)])"
    then have "x = (ms_remaining ms, ms_writes ms, ms_devices ms, cb, ioc) \<or> x \<in> set (fw_saves ?w)"
      using set_update_subset_insert[of "fw_saves ?w" k] by blast
    with assms(1) ms show "device_per_write x" unfolding world_owns_def save_owns_def by auto
  qed
  moreover have "owns B (world_devices ?w1) (fw_os ?w1)"
    using ms R(2) by (simp add: save_owns_def owns_def ac_simps)
  ultimately have "world_owns B ?w1" unfolding world_owns_def by simp
  then show ?thesis using k st by (simp add: on_file_write_def Let_def)
qed

section \<open>Runs of the library\<close>

text \<open>Data given to a save, or delivered to one, have a content for every name.\<close>

fun full_event :: "'e library_event \<Rightarrow> bool" where
  "full_event (Call_SaveASync url data ioc k loc) \<longleftrightarrow> full_data data"
| "full_event (Other_read i r parse save) \<longleftrightarrow> full_data r"
| "full_event _ = True"

lemma file_step_owns:
  assumes "others_keep other" and "world_owns B (world fm)"
  shows "world_owns B (world (file_step (file_vtable assign wrap uuid other) wrp fm e))"
proof (cases e)
  case (File_read k ec data)
  with on_file_read_owns[OF assms] assms(2) show ?thesis by simp
next
  case (File_write k i n)
  with on_file_write_owns[OF assms(2)] assms(2) show ?thesis by simp
next
  case File_posted
  with assms(2) show ?thesis
    by (simp add: plain_handle_read split: list.split posted.split)
qed

lemma library_step_owns:
  assumes "others_keep other" and "full_event e" and "world_owns B (world (lib_fm lib))"
  shows "world_owns B (world (lib_fm (library_step (file_vtable assign wrap uuid other) wrp e lib)))"
proof -
  let ?vt = "file_vtable assign wrap uuid other" and ?fm = "lib_fm lib"
  show ?thesis
  proof (cases e)
    case (Call_LoadASync url parse save ioc k savetype)
    have "lib_fm (library_step ?vt wrp e lib) = snd (LoadASync ?vt url parse save ioc k savetype ?fm)"
      by (simp add: Call_LoadASync Let_def split: sum.split prod.split)
    with call_keeps_world(1)[OF assms(3) vtable_owns(2)[OF assms(1,3)]] show ?thesis by simp
  next
    case (Call_SaveASync url data ioc k loc)
    then have full: "full_data data" using assms(2) by simp
    have "lib_fm (library_step ?vt wrp e lib) = snd (SaveASync ?vt url data ioc k loc ?fm)"
      by (simp add: Call_SaveASync Let_def split: sum.split prod.split)
    with call_keeps_world(2)[OF assms(3) vtable_owns(5)[OF assms(1,3) full]] show ?thesis by simp
  next
    case (Call_LoadFile url parse)
    with call_keeps_world(3)[OF assms(3) vtable_owns(1)[OF assms(1,3)] vtable_owns(3)[OF assms(1)]]
    show ?thesis by simp
  next
    case (Call_SaveFile url data)
    with call_keeps_world(4)[OF assms(3) vtable_owns(4)[OF assms(1,3)]] show ?thesis by simp
  next
    case (Run_handler fe)
    with file_step_owns[OF assms(1,3)] show ?thesis
      by (simp only: handler_moves_file_manager)
  next
    case (Other_read i r parse save)
    with handle_read_owns[OF assms(1,3), of r] assms(2,3) show ?thesis
      by (simp add: finish_read_fm case_prod_beta)
  next
    case (Other_write i)
    with assms(3) show ?thesis by (simp add: case_prod_beta)
  qed
qed

lemma library_run_owns:
  assumes "others_keep other" and "\<forall>e\<in>set es. full_event e" and "world_owns B (world (lib_fm lib))"
  shows "world_owns B (world (lib_fm (library_run (file_vtable assign wrap uuid other) wrp es lib)))"
  using assms(2,3)
proof (induction es arbitrary: lib)
  case (Cons e es)
  from library_step_owns[OF assms(1) _ Cons.prems(2), of e] Cons.prems Cons.IH show ?case
    by (simp add: library_run_def)
qed (simp add: library_run_def)


section \<open>Witnesses\<close>

lemma mnn_save_releases_descriptors_witness:
  "set (os_fds (ms_os (fst (dev_run mnn_save_step sample_save [Mnn_write_done 0 1])))) = {2, 1, 0}"
proof -
  let ?r = "dev_run mnn_save_step sample_save [Mnn_write_done 0 1]"
  have fin: "ms_writes (fst ?r) = []" by (simp add: sample_save_accepted(2,3) Let_def)
  have "distinct (os_fds (empty_os :: os))" "os_fds (empty_os :: os) = [2, 1, 0]" by (simp_all add: empty_os_def)
  with mnn_save_releases_descriptors[OF sample_save_accepted(1) _ _ prod.collapse[symmetric, of ?r]] fin
  show ?thesis by simp
qed

lemma others_keep_accepting: "others_keep accepting_handlers"
  by (simp add: others_keep_def same_descriptors_def accepting_handlers_def)

text \<open>A load that saves, its read, and then the write of the copy, which fails after one byte.\<close>

definition sample_run :: "unit library_event list" where
  "sample_run = [Call_LoadASync ''file:///d/f'' False True 4 7 ''file'', Call_LoadASync ''file:///none'' False False 4 8 [],
     Run_handler (File_read 0 ec_eof ''hi''), Run_handler (File_write 0 0 1)]"

lemma sample_run_fds:
  "os_fds (fw_os (world (lib_fm (library_run sample_vtable (\<lambda>_. ()) sample_run (library_start sample_files))))) =
     [2, 1, 0]"
  by code_simp


end
