(* ===== verification/IpfsDevice.thy ===== *)
theory IpfsDevice
  imports AsioContext IpfsHandles
begin

text \<open>
  \<open>IPFSDevice\<close> (\<open>src/IPFSCommon.cpp\<close>, \<open>include/IPFSCommon.hpp\<close>) and
  \<open>IPFSLoader::LoadASync\<close>. Several requests share one device: each looks for providers
  in the DHT, waits for the device's one retry timer when there are none, and then asks
  Bitswap for the content. The scheduler is a step relation: it picks the request whose
  handler runs next. Bitswap, the DHT and the libp2p codecs are parameters.
\<close>

section \<open>Errors and content\<close>

datatype ipfs_error = IPFS_CANNOT_DECODE | IPFS_NO_SOURCE

fun ipfs_error_message :: "ipfs_error \<Rightarrow> string" where
  "ipfs_error_message IPFS_CANNOT_DECODE = ''Cannot decode bitswap data''"
| "ipfs_error_message IPFS_NO_SOURCE = ''Cannot decode bitswap data''"

text \<open>\<open>ipfs_bitswap::UnixFSContent\<close>: its kind and its files with their paths.\<close>

datatype content_type = Single_file | Multiple_files

record unixfs_content =
  uc_type :: content_type
  uc_files :: "(string \<times> bytes) list"

type_synonym ipfs_act = "(ipfs_error, unit) act"

section \<open>The device\<close>

text \<open>The arguments a request carries through its lambdas.\<close>

record 'c request =
  rq_cid :: 'c
  rq_file :: string
  rq_addressoffset :: int
  rq_parse :: bool
  rq_save :: bool

text \<open>
  Where a request is: its first lambda is posted; a provider search or a content request
  is running; it waits for the retry timer; its timer handler is queued, with or without
  an error; it has completed; it has been dropped without a completion.
\<close>

datatype request_state =
    Posted_find
  | Posted_block
  | Finding
  | Requesting
  | Retry_waiting
  | Retry_queued bool
  | Completed
  | Dropped

text \<open>
  Shared pointers are numbers, \<open>None\<close> is null. \<open>dv_providers\<close> are the CIDs and \<open>PeerInfo\<close>s
  (a peer and its address) handed to \<open>Bitswap::AddProviders\<close>, in order.
\<close>

record ('c, 'a, 'p) ipfs_device =
  dv_host :: "nat option"
  dv_bitswap :: nat
  dv_dht :: "nat option"
  dv_requests :: "('c request \<times> request_state) list"
  dv_providers :: "('c \<times> 'p \<times> 'a) list"

text \<open>
  What the device relies on: \<open>lib_getPeerId\<close> and \<open>lib_fromBase58\<close> read the peer of an
  address, \<open>lib_fromHash\<close> tells whether \<open>PeerId::fromHash\<close> accepts the hash of a CID.
\<close>

record ('c, 'a, 'p) ipfs_lib =
  lib_getPeerId :: "'a \<Rightarrow> string option"
  lib_fromBase58 :: "string \<Rightarrow> 'p option"
  lib_fromHash :: "'c \<Rightarrow> bool"

text \<open>The two constructors: with a host, a Bitswap and a DHT of its own, or with external ones.\<close>

definition IPFSDevice_own :: "nat \<Rightarrow> nat \<Rightarrow> nat \<Rightarrow> ('c, 'a, 'p) ipfs_device" where
  "IPFSDevice_own host bitswap dht =
     \<lparr>dv_host = Some host, dv_bitswap = bitswap, dv_dht = Some dht, dv_requests = [], dv_providers = []\<rparr>"

definition IPFSDevice_external :: "nat \<Rightarrow> nat option \<Rightarrow> ('c, 'a, 'p) ipfs_device" where
  "IPFSDevice_external bitswap dht =
     \<lparr>dv_host = None, dv_bitswap = bitswap, dv_dht = dht, dv_requests = [], dv_providers = []\<rparr>"

definition getBitswap :: "('c, 'a, 'p) ipfs_device \<Rightarrow> nat" where "getBitswap d = dv_bitswap d"

definition getDHT :: "('c, 'a, 'p) ipfs_device \<Rightarrow> nat option" where "getDHT d = dv_dht d"

definition getHost :: "('c, 'a, 'p) ipfs_device \<Rightarrow> nat option" where "getHost d = dv_host d"

definition set_state :: "nat \<Rightarrow> request_state \<Rightarrow> ('c, 'a, 'p) ipfs_device \<Rightarrow> ('c, 'a, 'p) ipfs_device" where
  "set_state i st d = d\<lparr>dv_requests := (dv_requests d)[i := (fst (dv_requests d ! i), st)]\<rparr>"

definition request_at :: "nat \<Rightarrow> ('c, 'a, 'p) ipfs_device \<Rightarrow> 'c request" where
  "request_at i d = fst (dv_requests d ! i)"

definition state_at :: "nat \<Rightarrow> ('c, 'a, 'p) ipfs_device \<Rightarrow> request_state" where
  "state_at i d = snd (dv_requests d ! i)"

section \<open>Providers\<close>

definition addAddress ::
  "('c, 'a, 'p) ipfs_lib \<Rightarrow> 'c \<Rightarrow> 'a \<Rightarrow> ('c, 'a, 'p) ipfs_device \<Rightarrow> ('c, 'a, 'p) ipfs_device" where
  "addAddress lib cid address d =
     (case lib_getPeerId lib address of
        None \<Rightarrow> d
      | Some peer_id_bytes \<Rightarrow>
          (case lib_fromBase58 lib peer_id_bytes of
             None \<Rightarrow> d
           | Some peer_id \<Rightarrow> d\<lparr>dv_providers := dv_providers d @ [(cid, peer_id, address)]\<rparr>))"

text \<open>The loop of \<open>addAddresses\<close>, with \<open>continue\<close> for an address without a peer.\<close>

fun peer_infos :: "('c, 'a, 'p) ipfs_lib \<Rightarrow> 'a list \<Rightarrow> ('p \<times> 'a) list" where
  "peer_infos lib [] = []"
| "peer_infos lib (address # addresses) =
     (case lib_getPeerId lib address of
        None \<Rightarrow> peer_infos lib addresses
      | Some peer_id_bytes \<Rightarrow>
          (case lib_fromBase58 lib peer_id_bytes of
             None \<Rightarrow> peer_infos lib addresses
           | Some peer_id \<Rightarrow> (peer_id, address) # peer_infos lib addresses))"

definition addAddresses ::
  "('c, 'a, 'p) ipfs_lib \<Rightarrow> 'c \<Rightarrow> 'a list \<Rightarrow> ('c, 'a, 'p) ipfs_device \<Rightarrow> ('c, 'a, 'p) ipfs_device" where
  "addAddresses lib cid addresses d =
     d\<lparr>dv_providers := dv_providers d @ map (Pair cid) (peer_infos lib addresses)\<rparr>"

section \<open>Handlers\<close>

text \<open>A handler acts for one request: its actions are tagged with the index of the request.\<close>

type_synonym tagged = "nat \<times> ipfs_act"

definition complete_with ::
  "nat \<Rightarrow> ipfs_act \<Rightarrow> ('c, 'a, 'p) ipfs_device \<Rightarrow> ('c, 'a, 'p) ipfs_device \<times> tagged list" where
  "complete_with i a d = (set_state i Completed d, [(i, a)])"

definition RequestBlockMain ::
  "nat \<Rightarrow> ('c, 'a, 'p) ipfs_device \<Rightarrow> ('c, 'a, 'p) ipfs_device \<times> tagged list" where
  "RequestBlockMain i d = (set_state i Requesting d, [])"

text \<open>
  \<open>started\<close> is the result of \<open>FindProviders\<close>. \<open>PeerId::fromHash( ... ).value()\<close> throws
  out of the posted lambda when the hash is no peer id.
\<close>

definition StartFindingPeers ::
  "('c, 'a, 'p) ipfs_lib \<Rightarrow> bool \<Rightarrow> nat \<Rightarrow> ('c, 'a, 'p) ipfs_device \<Rightarrow>
   ('c, 'a, 'p) ipfs_device \<times> tagged list" where
  "StartFindingPeers lib started i d =
     (if dv_dht d = None then RequestBlockMain i d
      else if \<not> lib_fromHash lib (rq_cid (request_at i d)) then (set_state i Dropped d, [])
      else if \<not> started then complete_with i (Post_read (Inl IPFS_CANNOT_DECODE) False False) d
      else (set_state i Finding d, []))"

text \<open>
  \<open>expires_from_now\<close> cancels every wait on the timer: their handlers are queued with
  \<open>operation_aborted\<close>. Handlers that are queued already stay as they are.
\<close>

definition end_waits :: "bool \<Rightarrow> ('c, 'a, 'p) ipfs_device \<Rightarrow> ('c, 'a, 'p) ipfs_device" where
  "end_waits aborted d =
     d\<lparr>dv_requests := map (\<lambda>(r, st). (r, if st = Retry_waiting then Retry_queued aborted else st))
        (dv_requests d)\<rparr>"

definition StartFindingPeersWithRetry ::
  "nat \<Rightarrow> ('c, 'a, 'p) ipfs_device \<Rightarrow> ('c, 'a, 'p) ipfs_device \<times> tagged list" where
  "StartFindingPeersWithRetry i d = (set_state i Retry_waiting (end_waits True d), [])"

text \<open>The callback of \<open>FindProviders\<close>: an error, or the addresses of each provider.\<close>

definition on_providers ::
  "('c, 'a, 'p) ipfs_lib \<Rightarrow> unit + 'a list list \<Rightarrow> nat \<Rightarrow> ('c, 'a, 'p) ipfs_device \<Rightarrow>
   ('c, 'a, 'p) ipfs_device \<times> tagged list" where
  "on_providers lib res i d =
     (case res of
        Inl _ \<Rightarrow> complete_with i (Post_read (Inl IPFS_CANNOT_DECODE) False False) d
      | Inr providers \<Rightarrow>
          if providers \<noteq> []
          then RequestBlockMain i (addAddresses lib (rq_cid (request_at i d)) (concat providers) d)
          else StartFindingPeersWithRetry i d)"

text \<open>A timer error is logged and nothing else.\<close>

definition on_retry_timer ::
  "('c, 'a, 'p) ipfs_lib \<Rightarrow> bool \<Rightarrow> bool \<Rightarrow> nat \<Rightarrow> ('c, 'a, 'p) ipfs_device \<Rightarrow>
   ('c, 'a, 'p) ipfs_device \<times> tagged list" where
  "on_retry_timer lib started aborted i d =
     (if \<not> aborted then StartFindingPeers lib started i d else (set_state i Dropped d, []))"

definition convertUnixFSContentToResult ::
  "unixfs_content \<Rightarrow> string \<Rightarrow> bool \<Rightarrow> bool \<Rightarrow> ipfs_act" where
  "convertUnixFSContentToResult content filename parse save =
     (let files = (if uc_type content = Single_file
                   then (case uc_files content of
                           [] \<Rightarrow> []
                         | (path, bytes) # _ \<Rightarrow> [(if filename = [] then path else filename, bytes)])
                   else uc_files content)
      in Post_read (Inr (Some (map fst files, map snd files))) parse save)"

definition on_content ::
  "unit + unixfs_content \<Rightarrow> nat \<Rightarrow> ('c, 'a, 'p) ipfs_device \<Rightarrow> ('c, 'a, 'p) ipfs_device \<times> tagged list" where
  "on_content res i d =
     (case res of
        Inl _ \<Rightarrow> complete_with i (Post_read (Inl IPFS_CANNOT_DECODE) False False) d
      | Inr content \<Rightarrow>
          complete_with i (convertUnixFSContentToResult content (rq_file (request_at i d))
            (rq_parse (request_at i d)) (rq_save (request_at i d))) d)"

section \<open>The step relation\<close>

inductive ipfs_step ::
  "('c, 'a, 'p) ipfs_lib \<Rightarrow> ('c, 'a, 'p) ipfs_device \<Rightarrow> tagged list \<Rightarrow> ('c, 'a, 'p) ipfs_device \<Rightarrow> bool"
  for lib :: "('c, 'a, 'p) ipfs_lib" where
  run_find: "i < length (dv_requests d) \<Longrightarrow> state_at i d = Posted_find \<Longrightarrow>
     StartFindingPeers lib started i d = (d', as) \<Longrightarrow> ipfs_step lib d as d'"
| run_block: "i < length (dv_requests d) \<Longrightarrow> state_at i d = Posted_block \<Longrightarrow>
     RequestBlockMain i d = (d', as) \<Longrightarrow> ipfs_step lib d as d'"
| providers: "i < length (dv_requests d) \<Longrightarrow> state_at i d = Finding \<Longrightarrow>
     on_providers lib res i d = (d', as) \<Longrightarrow> ipfs_step lib d as d'"
| expiry: "ipfs_step lib d [] (end_waits False d)"
| timer: "i < length (dv_requests d) \<Longrightarrow> state_at i d = Retry_queued aborted \<Longrightarrow>
     on_retry_timer lib started aborted i d = (d', as) \<Longrightarrow> ipfs_step lib d as d'"
| content: "i < length (dv_requests d) \<Longrightarrow> state_at i d = Requesting \<Longrightarrow>
     on_content cres i d = (d', as) \<Longrightarrow> ipfs_step lib d as d'"
| new_request: "st \<in> {Posted_find, Posted_block} \<Longrightarrow>
     ipfs_step lib d [] (d\<lparr>dv_requests := dv_requests d @ [(r, st)]\<rparr>)"

inductive ipfs_run ::
  "('c, 'a, 'p) ipfs_lib \<Rightarrow> ('c, 'a, 'p) ipfs_device \<Rightarrow> tagged list \<Rightarrow> ('c, 'a, 'p) ipfs_device \<Rightarrow> bool"
  for lib :: "('c, 'a, 'p) ipfs_lib" and d0 :: "('c, 'a, 'p) ipfs_device" where
  start: "ipfs_run lib d0 [] d0"
| more: "ipfs_run lib d0 h d \<Longrightarrow> ipfs_step lib d as d' \<Longrightarrow> ipfs_run lib d0 (h @ as) d'"

inductive_cases ipfs_runE: "ipfs_run lib d0 h d"

section \<open>One completion per request\<close>

definition done_count :: "nat \<Rightarrow> tagged list \<Rightarrow> nat" where
  "done_count i h = length (filter (\<lambda>(j, a). j = i \<and> completion a) h)"

lemma done_count_simps [simp]:
  "done_count i [] = 0"
  "done_count i ((j, a) # h) = (if j = i \<and> completion a then 1 else 0) + done_count i h"
  "done_count i (h @ h') = done_count i h + done_count i h'"
  by (simp_all add: done_count_def)

text \<open>
  What a handler of request \<open>i\<close> may do: it leaves the states of the others alone, but for
  the waits on the timer it cancels, and completes \<open>i\<close> exactly when it says so.
\<close>

definition acts_for :: "nat \<Rightarrow> ('c, 'a, 'p) ipfs_device \<Rightarrow> ('c, 'a, 'p) ipfs_device \<Rightarrow> tagged list \<Rightarrow> bool" where
  "acts_for i d d' as \<longleftrightarrow> length (dv_requests d') = length (dv_requests d) \<and>
     (\<forall>j<length (dv_requests d). request_at j d' = request_at j d) \<and>
     (\<forall>j<length (dv_requests d). j \<noteq> i \<longrightarrow>
        state_at j d' = state_at j d \<or>
        state_at j d = Retry_waiting \<and> state_at j d' = Retry_queued True) \<and>
     (\<forall>j. done_count j as = (if j = i \<and> state_at i d' = Completed then 1 else 0)) \<and>
     dv_dht d' = dv_dht d"

lemma set_state_simps [simp]:
  "length (dv_requests (set_state i st d)) = length (dv_requests d)"
  "i < length (dv_requests d) \<Longrightarrow> state_at j (set_state i st d) = (if j = i then st else state_at j d)"
  "i < length (dv_requests d) \<Longrightarrow> request_at j (set_state i st d) = request_at j d"
  "dv_dht (set_state i st d) = dv_dht d"
  by (auto simp: set_state_def state_at_def request_at_def nth_list_update)

lemma end_waits_simps [simp]:
  "length (dv_requests (end_waits b d)) = length (dv_requests d)"
  "i < length (dv_requests d) \<Longrightarrow> state_at i (end_waits b d) =
     (if state_at i d = Retry_waiting then Retry_queued b else state_at i d)"
  "i < length (dv_requests d) \<Longrightarrow> request_at i (end_waits b d) = request_at i d"
  "dv_dht (end_waits b d) = dv_dht d"
  by (auto simp: end_waits_def state_at_def request_at_def split: prod.splits)

lemma addAddresses_simps [simp]:
  "dv_requests (addAddresses lib c as d) = dv_requests d" "dv_dht (addAddresses lib c as d) = dv_dht d"
  "state_at i (addAddresses lib c as d) = state_at i d" "request_at i (addAddresses lib c as d) = request_at i d"
  by (simp_all add: addAddresses_def state_at_def request_at_def)

lemma completion_convert [simp]: "completion (convertUnixFSContentToResult c f p v)"
  by (simp add: convertUnixFSContentToResult_def Let_def)

lemmas handler_defs = StartFindingPeers_def RequestBlockMain_def on_providers_def
  StartFindingPeersWithRetry_def on_retry_timer_def on_content_def complete_with_def

lemma handler_acts_for:
  assumes "i < length (dv_requests d)"
  shows "StartFindingPeers lib ok i d = (d', as) \<Longrightarrow> acts_for i d d' as"
    "RequestBlockMain i d = (d', as) \<Longrightarrow> acts_for i d d' as"
    "on_providers lib res i d = (d', as) \<Longrightarrow> acts_for i d d' as"
    "on_retry_timer lib ok ab i d = (d', as) \<Longrightarrow> acts_for i d d' as"
    "on_content cres i d = (d', as) \<Longrightarrow> acts_for i d d' as"
proof -
  show find: "StartFindingPeers lib ok i d = (d', as) \<Longrightarrow> acts_for i d d' as"
    using assms by (auto simp: acts_for_def handler_defs split: if_splits)
  show "RequestBlockMain i d = (d', as) \<Longrightarrow> acts_for i d d' as"
    using assms by (auto simp: acts_for_def handler_defs)
  show "on_providers lib res i d = (d', as) \<Longrightarrow> acts_for i d d' as"
    using assms by (auto simp: acts_for_def handler_defs split: if_splits sum.splits)
  show "on_retry_timer lib ok ab i d = (d', as) \<Longrightarrow> acts_for i d d' as"
    using assms find by (auto simp: acts_for_def on_retry_timer_def split: if_splits)
  show "on_content cres i d = (d', as) \<Longrightarrow> acts_for i d d' as"
    using assms by (auto simp: acts_for_def handler_defs split: sum.splits)
qed

lemma ipfs_step_cases:
  assumes "ipfs_step lib d as d'"
  obtains (handler) i where "i < length (dv_requests d)" "acts_for i d d' as"
      "state_at i d \<notin> {Retry_waiting, Completed, Dropped}"
    | (expiry) "as = []" "d' = end_waits False d"
    | (new) r st where "as = []" "d' = d\<lparr>dv_requests := dv_requests d @ [(r, st)]\<rparr>"
        "st \<in> {Posted_find, Posted_block}"
  using assms
proof (cases rule: ipfs_step.cases)
  case (run_find i started)
  show ?thesis
    by (rule handler[OF run_find(1) handler_acts_for(1)[OF run_find(1,3)]]) (simp add: run_find(2))
next
  case (run_block i)
  show ?thesis
    by (rule handler[OF run_block(1) handler_acts_for(2)[OF run_block(1,3)]]) (simp add: run_block(2))
next
  case (providers i res)
  show ?thesis
    by (rule handler[OF providers(1) handler_acts_for(3)[OF providers(1,3)]]) (simp add: providers(2))
next
  case (timer i aborted started)
  show ?thesis
    by (rule handler[OF timer(1) handler_acts_for(4)[OF timer(1,3)]]) (simp add: timer(2))
next
  case (content i cres)
  show ?thesis
    by (rule handler[OF content(1) handler_acts_for(5)[OF content(1,3)]]) (simp add: content(2))
qed (use expiry new in blast)+

definition completed_at :: "nat \<Rightarrow> ('c, 'a, 'p) ipfs_device \<Rightarrow> nat" where
  "completed_at i d = (if i < length (dv_requests d) \<and> state_at i d = Completed then 1 else 0)"

lemma ipfs_step_count:
  assumes "ipfs_step lib d as d'"
  shows "completed_at i d + done_count i as = completed_at i d'"
  using assms
proof (cases rule: ipfs_step_cases)
  case (handler j)
  then show ?thesis by (cases "i < length (dv_requests d)"; cases "i = j") (auto simp: acts_for_def completed_at_def)
next
  case expiry
  then show ?thesis by (auto simp: completed_at_def)
next
  case (new r st)
  then show ?thesis by (auto simp: completed_at_def state_at_def nth_append)
qed

text \<open>
  C15: whatever the DHT, Bitswap and the timer answer, however many requests share a
  device and however their handlers interleave, a request calls its completion callback
  at most once, and exactly when it ends as completed.
\<close>

theorem ipfs_completes_at_most_once:
  assumes "ipfs_run lib d0 h d" and "dv_requests d0 = []"
  shows "done_count i h = (if i < length (dv_requests d) \<and> state_at i d = Completed then 1 else 0)"
proof -
  have "done_count i h = completed_at i d"
    using assms
  proof (induction rule: ipfs_run.induct)
    case start
    then show ?case by (simp add: completed_at_def)
  next
    case (more h d as d')
    then show ?case using ipfs_step_count[of lib d as d' i] by simp
  qed
  then show ?thesis by (simp add: completed_at_def)
qed

section \<open>The shared retry timer\<close>

definition lost :: "request_state \<Rightarrow> bool" where
  "lost st \<longleftrightarrow> st = Retry_queued True \<or> st = Dropped"

lemma handler_of_lost:
  "state_at i d = Retry_queued True \<Longrightarrow> i < length (dv_requests d) \<Longrightarrow>
   on_retry_timer lib ok True i d = (d', as) \<Longrightarrow> state_at i d' = Dropped"
  by (auto simp: on_retry_timer_def)

lemma ipfs_step_lost:
  assumes "ipfs_step lib d as d'" and "i < length (dv_requests d)" and "lost (state_at i d)"
  shows "i < length (dv_requests d')" "lost (state_at i d')"
proof -
  have "i < length (dv_requests d') \<and> lost (state_at i d')"
    using assms
  proof (cases rule: ipfs_step.cases)
    case (run_find j started)
    with assms handler_acts_for(1)[OF run_find(1,3)] show ?thesis by (auto simp: acts_for_def lost_def)
  next
    case (run_block j)
    with assms handler_acts_for(2)[OF run_block(1,3)] show ?thesis by (auto simp: acts_for_def lost_def)
  next
    case (providers j res)
    with assms handler_acts_for(3)[OF providers(1,3)] show ?thesis by (auto simp: acts_for_def lost_def)
  next
    case (timer j aborted started)
    show ?thesis
    proof (cases "j = i")
      case True
      with timer assms(3) have "aborted" by (auto simp: lost_def)
      with timer True handler_of_lost[of i d] handler_acts_for(4)[OF timer(1,3)] show ?thesis
        by (auto simp: acts_for_def lost_def)
    next
      case False
      with timer assms handler_acts_for(4)[OF timer(1,3)] show ?thesis by (auto simp: acts_for_def lost_def)
    qed
  next
    case (content j cres)
    with assms handler_acts_for(5)[OF content(1,3)] show ?thesis by (auto simp: acts_for_def lost_def)
  next
    case (new_request st r)
    with assms show ?thesis by (auto simp: lost_def state_at_def nth_append)
  qed (auto simp: lost_def)
  then show "i < length (dv_requests d')" "lost (state_at i d')" by auto
qed

lemma ipfs_run_lost:
  "ipfs_run lib d0 h d \<Longrightarrow> i < length (dv_requests d0) \<Longrightarrow> lost (state_at i d0) \<Longrightarrow>
   i < length (dv_requests d) \<and> lost (state_at i d) \<and> done_count i h = 0"
proof (induction rule: ipfs_run.induct)
  case (more h d as d')
  then have d: "i < length (dv_requests d)" "lost (state_at i d)" "done_count i h = 0" by auto
  note d' = ipfs_step_lost[OF more.hyps(2) d(1,2)]
  have "done_count i as = 0"
    using ipfs_step_count[OF more.hyps(2), of i] d' by (auto simp: completed_at_def lost_def split: if_splits)
  with d' d(3) show ?case by simp
qed simp

text \<open>
  The retry timer belongs to the device, not to the request. When a second request on
  the same device gets an empty provider list while a first one waits for the timer,
  the first is cancelled and never completes, whatever happens afterwards.
\<close>

theorem ipfs_retry_cancels_other:
  assumes "i < length (dv_requests d)" and "j < length (dv_requests d)" and "i \<noteq> j"
    and "state_at i d = Retry_waiting"
    and "on_providers lib (Inr []) j d = (d', as)" and "ipfs_run lib d' h d''"
  shows "done_count i (as @ h) = 0 \<and> lost (state_at i d'')"
proof -
  have "i < length (dv_requests d') \<and> lost (state_at i d') \<and> as = []"
    using assms(1-5) by (auto simp: on_providers_def StartFindingPeersWithRetry_def lost_def)
  with ipfs_run_lost[OF assms(6), of i] show ?thesis by simp
qed

lemma handler_not_lost:
  assumes "i < length (dv_requests d)"
  shows "StartFindingPeers lib ok i d = (d', as) \<Longrightarrow> lib_fromHash lib (rq_cid (request_at i d)) \<Longrightarrow>
      \<not> lost (state_at i d')"
    "RequestBlockMain i d = (d', as) \<Longrightarrow> \<not> lost (state_at i d')"
    "on_providers lib res i d = (d', as) \<Longrightarrow> \<not> lost (state_at i d')"
    "on_content cres i d = (d', as) \<Longrightarrow> \<not> lost (state_at i d')"
  using assms by (auto simp: handler_defs lost_def split: if_splits sum.splits)

text \<open>
  C16: a request that has its device to itself, with a CID whose hash is a peer id, is
  never lost: it is going on or has completed.
\<close>

theorem ipfs_alone_never_lost:
  assumes "ipfs_run lib d0 h d" and "dv_requests d0 = []" and "dv_requests d = [(r, st)]"
    and "lib_fromHash lib (rq_cid r)"
  shows "\<not> lost st"
proof -
  have "length (dv_requests d) \<le> 1 \<longrightarrow> (\<forall>r st. dv_requests d = [(r, st)] \<longrightarrow>
      lib_fromHash lib (rq_cid r) \<longrightarrow> \<not> lost st)"
    using assms(1,2)
  proof (induction rule: ipfs_run.induct)
    case (more h d as d')
    note hyp = more.hyps(2)
    show ?case
    proof (intro impI allI)
      fix r st
      assume len: "length (dv_requests d') \<le> 1" and d': "dv_requests d' = [(r, st)]"
        and hash: "lib_fromHash lib (rq_cid r)"
      have one: "dv_requests d = [(request_at 0 d, state_at 0 d)]" if "length (dv_requests d) = 1"
        using that by (auto simp: request_at_def state_at_def length_Suc_conv)
      have st: "state_at 0 d' = st" "request_at 0 d' = r" using d' by (simp_all add: state_at_def request_at_def)
      have same: "length (dv_requests d) = 1" "j = 0" "request_at j d = r" "state_at j d' = st"
        if "acts_for j d d' as" "j < length (dv_requests d)" for j
      proof -
        show l: "length (dv_requests d) = 1" using that(1) d' by (simp add: acts_for_def)
        with that(2) show j: "j = 0" by simp
        then show "state_at j d' = st" using st by simp
        from that have "request_at j d = request_at j d'" by (simp add: acts_for_def)
        with j st show "request_at j d = r" by simp
      qed
      from hyp show "\<not> lost st"
      proof (cases rule: ipfs_step.cases)
        case (new_request st' r')
        with d' len show ?thesis by (cases "dv_requests d") (auto simp: lost_def)
      next
        case expiry
        with len d' have l: "length (dv_requests d) = 1" by (metis One_nat_def end_waits_simps(1) length_Cons list.size(3))
        with one more.IH[OF more.prems] expiry st hash have "\<not> lost (state_at 0 d)" by fastforce
        with expiry st l show ?thesis by (auto simp: lost_def split: if_splits)
      next
        case (run_find j started)
        note acts = handler_acts_for(1)[OF run_find(1,3)]
        from same[OF acts run_find(1)] handler_not_lost(1)[OF run_find(1,3)] hash show ?thesis by simp
      next
        case (run_block j)
        from same[OF handler_acts_for(2)[OF run_block(1,3)] run_block(1)]
          handler_not_lost(2)[OF run_block(1,3)] show ?thesis by simp
      next
        case (providers j res)
        from same[OF handler_acts_for(3)[OF providers(1,3)] providers(1)]
          handler_not_lost(3)[OF providers(1,3)] show ?thesis by simp
      next
        case (timer j aborted started)
        note eqs = same[OF handler_acts_for(4)[OF timer(1,3)] timer(1)]
        have "\<not> lost (state_at 0 d)" using one[OF eqs(1)] more.IH[OF more.prems] hash eqs by fastforce
        then have "StartFindingPeers lib started j d = (d', as)"
          using timer(2,3) eqs(2) by (cases aborted) (auto simp: lost_def on_retry_timer_def)
        from handler_not_lost(1)[OF timer(1) this] hash eqs show ?thesis by simp
      next
        case (content j cres)
        from same[OF handler_acts_for(5)[OF content(1,3)] content(1)]
          handler_not_lost(4)[OF content(1,3)] show ?thesis by simp
      qed
    qed
  qed simp
  with assms(3,4) show ?thesis by simp
qed

section \<open>Examples of runs\<close>

definition sample_lib :: "(nat, nat, nat) ipfs_lib" where
  "sample_lib = \<lparr>lib_getPeerId = (\<lambda>a. if a = 0 then None else Some ''p''),
     lib_fromBase58 = (\<lambda>s. Some (length s)), lib_fromHash = (\<lambda>c. c \<noteq> 0)\<rparr>"

definition sample_request :: "nat request" where
  "sample_request = \<lparr>rq_cid = 7, rq_file = ''f'', rq_addressoffset = 0, rq_parse = False, rq_save = True\<rparr>"

definition device_with :: "(nat request \<times> request_state) list \<Rightarrow> (nat, nat, nat) ipfs_device" where
  "device_with rs = \<lparr>dv_host = Some 1, dv_bitswap = 2, dv_dht = Some 3, dv_requests = rs, dv_providers = []\<rparr>"

lemma sample_run:
  "ipfs_run sample_lib (device_with []) [(0, Post_read (Inl IPFS_CANNOT_DECODE) False False)]
     (device_with [(sample_request, Completed)])"
proof -
  have 1: "ipfs_step sample_lib (device_with []) [] (device_with [(sample_request, Posted_find)])"
    using ipfs_step.new_request[of Posted_find sample_lib "device_with []" sample_request]
    by (simp add: device_with_def)
  have 2: "ipfs_step sample_lib (device_with [(sample_request, Posted_find)])
      [(0, Post_read (Inl IPFS_CANNOT_DECODE) False False)] (device_with [(sample_request, Completed)])"
    by (rule ipfs_step.run_find[where i = 0 and started = False])
      (simp_all add: device_with_def state_at_def request_at_def StartFindingPeers_def complete_with_def
        set_state_def sample_lib_def sample_request_def)
  from ipfs_run.more[OF ipfs_run.more[OF ipfs_run.start 1] 2] show ?thesis by simp
qed

lemma ipfs_completes_at_most_once_witness:
  "done_count 0 [(0, Post_read (Inl IPFS_CANNOT_DECODE) False False)] = 1"
  using ipfs_completes_at_most_once[OF sample_run, of 0] by (simp add: device_with_def state_at_def)

lemma ipfs_alone_never_lost_witness: "\<not> lost Completed"
  using ipfs_alone_never_lost[OF sample_run, of sample_request Completed]
  by (simp add: device_with_def sample_lib_def sample_request_def)

lemma ipfs_retry_cancels_other_witness:
  "lost (state_at 0 (fst (on_providers sample_lib (Inr []) 1
     (device_with [(sample_request, Retry_waiting), (sample_request, Finding)]))))"
proof -
  let ?d = "device_with [(sample_request, Retry_waiting), (sample_request, Finding)]"
  have "on_providers sample_lib (Inr []) 1 ?d = (fst (on_providers sample_lib (Inr []) 1 ?d), [])"
    by (simp add: on_providers_def StartFindingPeersWithRetry_def)
  from ipfs_retry_cancels_other[OF _ _ _ _ this ipfs_run.start, of 0] show ?thesis
    by (simp add: device_with_def state_at_def)
qed

section \<open>Providers, one by one and together\<close>

text \<open>
  \<open>addAddresses\<close> hands Bitswap exactly the providers that \<open>addAddress\<close> would add for
  the addresses one after the other: addresses without a peer id, and peer ids that are
  not base 58, are skipped by both.
\<close>

theorem addAddresses_is_fold:
  "addAddresses lib cid addresses d = fold (addAddress lib cid) addresses d"
proof (induction addresses arbitrary: d)
  case Nil
  then show ?case by (simp add: addAddresses_def)
next
  case (Cons a as)
  have "fold (addAddress lib cid) (a # as) d = addAddresses lib cid as (addAddress lib cid a d)"
    by (simp only: fold_simps Cons.IH)
  also have "\<dots> = addAddresses lib cid (a # as) d"
    by (simp add: addAddresses_def addAddress_def split: option.splits)
  finally show ?case by simp
qed

section \<open>Creating devices\<close>

text \<open>
  The singleton of \<open>getInstance\<close>: \<open>None\<close>, or whether its DHT has been started.
  \<open>listen_ok\<close> and \<open>start_ok\<close> are the results of \<open>listen\<close> and of the DHT's \<open>Start\<close>, whose
  error \<open>BOOST_OUTCOME_TRY\<close> returns at once.
\<close>

datatype inst0error = Listen_failed | Dht_start_failed

definition getInstance :: "bool \<Rightarrow> bool \<Rightarrow> bool option \<Rightarrow> (inst0error + bool) \<times> bool option" where
  "getInstance listen_ok start_ok inst0 =
     (case inst0 of
        Some started \<Rightarrow> (Inr started, inst0)
      | None \<Rightarrow>
          if \<not> listen_ok then (Inl Listen_failed, None)
          else if \<not> start_ok then (Inl Dht_start_failed, Some False)
          else (Inr True, Some True))"

definition createWithBitswap :: "bool \<Rightarrow> nat \<Rightarrow> nat option \<Rightarrow> ipfs_error + ('c, 'a, 'p) ipfs_device" where
  "createWithBitswap constructed bitswap dht =
     (if constructed then Inr (IPFSDevice_external bitswap dht)
      else Inl IPFS_CANNOT_DECODE)"

text \<open>
  When the DHT cannot be started, \<open>getInstance\<close> reports the error once and keeps the
  device: every later call returns that device, its DHT not started, as a success; after
  a failed \<open>listen\<close>, in contrast, the next call starts afresh.
\<close>

theorem getInstance_keeps_failed_device:
  "fst (getInstance True False None) = Inl Dht_start_failed \<and>
   getInstance l s (snd (getInstance True False None)) = (Inr False, Some False) \<and>
   getInstance l s (snd (getInstance False s' None)) = getInstance l s None"
  by (simp add: getInstance_def)

section \<open>IPFSLoader\<close>

datatype ipfs_loader_error = IPFS_CANNOT_LISTEN | IPFS_BAD_CID | IPFS_INVALID_URL

fun ipfs_loader_error_message :: "ipfs_loader_error \<Rightarrow> string" where
  "ipfs_loader_error_message IPFS_CANNOT_LISTEN = ''Cannot listen on address''"
| "ipfs_loader_error_message IPFS_BAD_CID = ''IPFS CID is invalid''"
| "ipfs_loader_error_message IPFS_INVALID_URL = ''Invalid URL''"

definition IPFSLoader_LoadFile :: "string \<Rightarrow> string" where
  "IPFSLoader_LoadFile filename = ''init''"

text \<open>
  The ping handlers: \<open>OnNewConnection\<close> starts to ping on a connection that is still alive
  (\<open>startPinging\<close> is libp2p's), \<open>OnSessionPing\<close> keeps the session in \<open>pingSession_\<close>.
\<close>

definition OnSessionPing :: "'e + 's \<Rightarrow> 's option \<Rightarrow> 's option" where
  "OnSessionPing session pingSession =
     (case session of Inr s \<Rightarrow> Some s | Inl _ \<Rightarrow> pingSession)"

definition OnNewConnection :: "('conn \<Rightarrow> 'w \<Rightarrow> 'w) \<Rightarrow> 'conn option \<Rightarrow> 'w \<Rightarrow> 'w" where
  "OnNewConnection startPinging conn w =
     (case conn of None \<Rightarrow> w | Some sconn \<Rightarrow> startPinging sconn w)"

lemma OnSessionPing_keeps_last:
  "fold OnSessionPing (ps @ Inr s # map Inl es) old = Some s"
  by (induction es rule: rev_induct) (simp_all add: OnSessionPing_def)

text \<open>\<open>addSeedProvider\<close>: the provider handed to the external Bitswap, if there is one.\<close>

definition addSeedProvider :: "'c \<Rightarrow> 'p \<Rightarrow> ipfs_loader \<Rightarrow> (nat \<times> 'c \<times> 'p) option" where
  "addSeedProvider cid peerInfo l = map_option (\<lambda>bitswap. (bitswap, cid, peerInfo)) (externalBitswap l)"

text \<open>
  What \<open>LoadASync\<close> posts to the io_context: a failed completion, or the first lambda of a
  request on the device made for the external Bitswap or on the singleton device.
\<close>

datatype ipfs_target = External_device nat "nat option" | Singleton_device

datatype 'c ipfs_start = Reject ipfs_loader_error | Post_start ipfs_target request_state "'c request"

text \<open>
  \<open>cid_of\<close> is the CID decoder. Without an external Bitswap the singleton device is made
  before the CID is looked at. Setting up the log configuration is left out.
\<close>

definition IPFSLoader_LoadASync ::
  "(string \<Rightarrow> 'c option) \<Rightarrow> bool \<Rightarrow> bool \<Rightarrow> bool \<Rightarrow> ipfs_loader \<Rightarrow> string \<Rightarrow> bool \<Rightarrow> bool \<Rightarrow> bool option \<Rightarrow>
   exn + (string \<times> 'c ipfs_start \<times> bool option)" where
  "IPFSLoader_LoadASync cid_of constructed listen_ok start_ok l filename parse save inst0 =
     (case parseIPFSUrl filename \<lparr>ip_cid = [], ip_file = []\<rparr> of
        None \<Rightarrow> Inl Out_of_range
      | Some (False, _) \<Rightarrow> Inr (''init'', Reject IPFS_INVALID_URL, inst0)
      | Some (True, p) \<Rightarrow>
          let request = (\<lambda>cid. \<lparr>rq_cid = cid, rq_file = ip_file p, rq_addressoffset = 0,
                               rq_parse = parse, rq_save = save\<rparr>)
          in case externalBitswap l of
               Some bitswap \<Rightarrow>
                 (case cid_of (ip_cid p) of
                    None \<Rightarrow> Inr (''init'', Reject IPFS_BAD_CID, inst0)
                  | Some cid \<Rightarrow>
                      (case (createWithBitswap constructed bitswap (externalDht l) :: ipfs_error + ('c, unit, unit) ipfs_device) of
                         Inl _ \<Rightarrow> Inr (''init'', Reject IPFS_CANNOT_LISTEN, inst0)
                       | Inr ipfsDevice \<Rightarrow>
                           Inr (''init'', Post_start (External_device (getBitswap ipfsDevice) (getDHT ipfsDevice))
                             (if getDHT ipfsDevice \<noteq> None then Posted_find else Posted_block) (request cid), inst0)))
             | None \<Rightarrow>
                 (case getInstance listen_ok start_ok inst0 of
                    (Inl _, inst) \<Rightarrow> Inr (''init'', Reject IPFS_CANNOT_LISTEN, inst)
                  | (Inr _, inst) \<Rightarrow>
                      (case cid_of (ip_cid p) of
                         None \<Rightarrow> Inr (''init'', Reject IPFS_BAD_CID, inst)
                       | Some cid \<Rightarrow>
                           Inr (''init'', Post_start Singleton_device Posted_find (request cid), inst))))"

text \<open>
  The load of \<open>CID/file\<close> goes to the external Bitswap when one is set, through the DHT
  exactly when a DHT is set too, and otherwise to the singleton device through its DHT;
  a CID that cannot be decoded is reported as \<open>BAD_CID\<close> and starts nothing, but without an
  external Bitswap the singleton device has been created by then.
\<close>

theorem ipfs_load_dispatch:
  assumes "cid \<noteq> []" and "CHR ''/'' \<notin> set cid"
  shows "IPFSLoader_LoadASync cid_of True True True l (cid @ ''/'' @ kfile) parse save inst0 =
    Inr (''init'',
      (case cid_of cid of
         None \<Rightarrow> Reject IPFS_BAD_CID
       | Some c \<Rightarrow>
           let request = \<lparr>rq_cid = c, rq_file = kfile, rq_addressoffset = 0, rq_parse = parse, rq_save = save\<rparr>
           in case externalBitswap l of
                Some b \<Rightarrow> Post_start (External_device b (externalDht l))
                  (if externalDht l = None then Posted_block else Posted_find) request
              | None \<Rightarrow> Post_start Singleton_device Posted_find request),
      if externalBitswap l = None \<and> inst0 = None then Some True else inst0)"
proof -
  have "parseIPFSUrl (cid @ CHR ''/'' # kfile) \<lparr>ip_cid = [], ip_file = []\<rparr> =
      Some (True, \<lparr>ip_cid = cid, ip_file = kfile\<rparr>)"
    using assms by (simp add: parseIPFSUrl_def str_find_char_append substr_def)
  then show ?thesis
    by (auto simp: IPFSLoader_LoadASync_def getInstance_def createWithBitswap_def
        IPFSDevice_external_def getBitswap_def getDHT_def Let_def split: option.splits)
qed

lemma ipfs_load_dispatch_witness:
  "IPFSLoader_LoadASync (\<lambda>s. Some (length s)) True True True \<lparr>externalBitswap = Some 1, externalDht = None\<rparr>
     (''Qm'' @ ''/'' @ ''f'') False True None =
   Inr (''init'', Post_start (External_device 1 None) Posted_block
     \<lparr>rq_cid = 2, rq_file = ''f'', rq_addressoffset = 0, rq_parse = False, rq_save = True\<rparr>, None)"
  using ipfs_load_dispatch[of "''Qm''" "\<lambda>s. Some (length s)" "\<lparr>externalBitswap = Some 1, externalDht = None\<rparr>"
      "''f''" False True None]
  by (simp add: Let_def)

end
