(* ===== verification/IpfsSaver.thy ===== *)
theory IpfsSaver
  imports OperatingSystem IpfsDevice
begin

text \<open>
  \<open>IPFSSaver\<close> (\<open>src/IPFSSaver.cpp\<close>): the files of a save are written to a temporary file
  or directory, which the external Bitswap publishes; its callback removes them, announces
  the CID in the DHT, reports the location and calls back. Bitswap, the DHT, the codecs,
  the temporary directory and the clock are parameters. Removing a file does not throw.
\<close>

section \<open>Files\<close>

definition remove_file :: "string \<Rightarrow> 'x os_scheme \<Rightarrow> 'x os_scheme" where
  "remove_file p s = s\<lparr>os_nodes := (os_nodes s)(resolve_path s p := None)\<rparr>"

definition remove_all_below :: "string \<Rightarrow> 'x os_scheme \<Rightarrow> 'x os_scheme" where
  "remove_all_below p s =
     s\<lparr>os_nodes := (\<lambda>q. if prefix (resolve_path s p) q then None else os_nodes s q)\<rparr>"

text \<open>
  The loop over the files of a directory: a directory that cannot be made throws, a file
  that cannot be opened is skipped.
\<close>

fun write_files :: "string \<Rightarrow> (string \<times> bytes) list \<Rightarrow> 'x os_scheme \<Rightarrow> (exn + unit) \<times> 'x os_scheme" where
  "write_files dir [] s = (Inr (), s)"
| "write_files dir ((name, content) # files) s =
     (let file_path = path_append dir name
      in case create_directories (path_parent file_path) s of
           (Inl e, s1) \<Rightarrow> (Inl e, s1)
         | (Inr _, s1) \<Rightarrow>
             (case ofstream_open file_path s1 of
                (False, s2) \<Rightarrow> write_files dir files s2
              | (True, s2) \<Rightarrow>
                  write_files dir files (write_at_start (resolve_path s2 file_path) content s2)))"

section \<open>Publishing\<close>

record publish =
  pb_path :: string
  pb_is_dir :: bool
  pb_bitswap :: nat
  pb_dht :: "nat option"
  pb_location :: bool

datatype ipfs_save_io = Provide nat bytes | Ipfs_location string

type_synonym ipfs_save_act = "(ipfs_error, ipfs_save_io) act"

definition AnnounceCID :: "('c \<Rightarrow> bytes option) \<Rightarrow> nat \<Rightarrow> 'c \<Rightarrow> ipfs_save_act list" where
  "AnnounceCID encode dht cid =
     (case encode cid of None \<Rightarrow> [] | Some encoded \<Rightarrow> [Io (Provide dht encoded)])"

text \<open>What both callbacks do with the result, after they have removed their files.\<close>

definition report_published ::
  "('c \<Rightarrow> bytes option) \<Rightarrow> ('c \<Rightarrow> string option) \<Rightarrow> publish \<Rightarrow> unit + 'c \<Rightarrow> ipfs_save_act list" where
  "report_published encode toString pb result =
     (case result of
        Inl _ \<Rightarrow> []
      | Inr cid \<Rightarrow>
          (case pb_dht pb of None \<Rightarrow> [] | Some dht \<Rightarrow> AnnounceCID encode dht cid) @
          (case toString cid of
             None \<Rightarrow> []
           | Some cidString \<Rightarrow>
               if pb_location pb then [Io (Ipfs_location (''ipfs://'' @ cidString))] else [])) @
     [Post_write]"

text \<open>The callbacks of \<open>PublishFile\<close> and \<open>PublishDirectory\<close>.\<close>

definition on_file_published ::
  "('c \<Rightarrow> bytes option) \<Rightarrow> ('c \<Rightarrow> string option) \<Rightarrow> publish \<Rightarrow> unit + 'c \<Rightarrow> 'x os_scheme \<Rightarrow>
   'x os_scheme \<times> ipfs_save_act list" where
  "on_file_published encode toString pb result s =
     (remove_file (pb_path pb) s, report_published encode toString pb result)"

definition on_directory_published ::
  "('c \<Rightarrow> bytes option) \<Rightarrow> ('c \<Rightarrow> string option) \<Rightarrow> publish \<Rightarrow> unit + 'c \<Rightarrow> 'x os_scheme \<Rightarrow>
   'x os_scheme \<times> ipfs_save_act list" where
  "on_directory_published encode toString pb result s =
     (remove_all_below (pb_path pb) s, report_published encode toString pb result)"

definition on_published ::
  "('c \<Rightarrow> bytes option) \<Rightarrow> ('c \<Rightarrow> string option) \<Rightarrow> publish \<Rightarrow> unit + 'c \<Rightarrow> 'x os_scheme \<Rightarrow>
   'x os_scheme \<times> ipfs_save_act list" where
  "on_published encode toString pb result s =
     (if pb_is_dir pb then on_directory_published encode toString pb result s
      else on_file_published encode toString pb result s)"

lemmas published_defs = on_published_def on_file_published_def on_directory_published_def
  report_published_def

definition IPFSSaver_SaveFile :: "string \<Rightarrow> bytes option \<Rightarrow> exn + unit" where
  "IPFSSaver_SaveFile filename data = Inr ()"

definition publish_dir :: string where "publish_dir = ''ipfs_temp_publish''"

text \<open>
  The two branches of \<open>SaveASync\<close>. \<open>tmp\<close> is \<open>temp_directory_path()\<close> (which may throw,
  outside the try block), \<open>now\<close> the decimal reading of the clock, \<open>throws\<close> tells whether
  starting to publish throws. A save that is given up posts its callback.
\<close>

definition publish_single_file ::
  "exn + string \<Rightarrow> string \<Rightarrow> (publish \<Rightarrow> bool) \<Rightarrow> nat \<Rightarrow> nat option \<Rightarrow> bytes list \<Rightarrow> bool \<Rightarrow>
   'x os_scheme \<Rightarrow> (exn + unit) \<times> ('x os_scheme \<times> publish option) \<times> ipfs_save_act list" where
  "publish_single_file tmp now throws bitswap dht fileContents save_location s =
     (case tmp of
        Inl e \<Rightarrow> (Inl e, (s, None), [])
      | Inr dir \<Rightarrow>
          let tempFilePath = path_append dir (''ipfs_temp_'' @ now);
              pb = \<lparr>pb_path = tempFilePath, pb_is_dir = False, pb_bitswap = bitswap,
                    pb_dht = dht, pb_location = save_location\<rparr>
          in case ofstream_open tempFilePath s of
               (False, s1) \<Rightarrow> (Inr (), (s1, None), [Post_write])
             | (True, s1) \<Rightarrow>
                 let s2 = write_at_start (resolve_path s1 tempFilePath) (hd fileContents) s1
                 in if throws pb then (Inr (), (remove_file tempFilePath s2, None), [Post_write])
                    else (Inr (), (s2, Some pb), []))"

definition publish_directory ::
  "(publish \<Rightarrow> bool) \<Rightarrow> nat \<Rightarrow> nat option \<Rightarrow> string list \<Rightarrow> bytes list \<Rightarrow> bool \<Rightarrow>
   'x os_scheme \<Rightarrow> (exn + unit) \<times> ('x os_scheme \<times> publish option) \<times> ipfs_save_act list" where
  "publish_directory throws bitswap dht filePaths fileContents save_location s =
     (let pb = \<lparr>pb_path = publish_dir, pb_is_dir = True, pb_bitswap = bitswap,
                pb_dht = dht, pb_location = save_location\<rparr>;
          caught = (\<lambda>s. (Inr (), (remove_all_below publish_dir s, None), [Post_write]));
          s1 = (if path_exists s publish_dir then remove_all_below publish_dir s else s)
      in case create_directories publish_dir s1 of
           (Inl _, s2) \<Rightarrow> caught s2
         | (Inr _, s2) \<Rightarrow>
             (case write_files publish_dir (zip filePaths fileContents) s2 of
                (Inl _, s3) \<Rightarrow> caught s3
              | (Inr _, s3) \<Rightarrow> if throws pb then caught s3 else (Inr (), (s3, Some pb), [])))"

definition IPFSSaver_SaveASync ::
  "exn + string \<Rightarrow> string \<Rightarrow> (publish \<Rightarrow> bool) \<Rightarrow> ipfs_saver \<Rightarrow> string \<Rightarrow> 'e result_type \<Rightarrow> string \<Rightarrow>
   bool \<Rightarrow> 'x os_scheme \<Rightarrow> (exn + unit) \<times> ('x os_scheme \<times> publish option) \<times> ipfs_save_act list" where
  "IPFSSaver_SaveASync tmp now throws v filename data sfx save_location s =
     (let rejected = (Inr (), (s, None), [Post_write])
      in case data of
           Inl _ \<Rightarrow> rejected
         | Inr None \<Rightarrow> rejected
         | Inr (Some (filePaths, fileContents)) \<Rightarrow>
             if filePaths = [] then rejected
             else case saverBitswap v of
                    None \<Rightarrow> rejected
                  | Some bitswap \<Rightarrow>
                      if length filePaths \<noteq> length fileContents then rejected
                      else if length filePaths = 1
                      then publish_single_file tmp now throws bitswap (saverDht v) fileContents save_location s
                      else publish_directory throws bitswap (saverDht v) filePaths fileContents save_location s)"

lemmas ipfs_save_defs = IPFSSaver_SaveASync_def publish_single_file_def publish_directory_def

section \<open>One callback per save\<close>

datatype 'c publish_event = Published "unit + 'c"

fun ipfs_save_step ::
  "('c \<Rightarrow> bytes option) \<Rightarrow> ('c \<Rightarrow> string option) \<Rightarrow> 'x os_scheme \<times> publish option \<Rightarrow> 'c publish_event \<Rightarrow>
   ('x os_scheme \<times> publish option) \<times> ipfs_save_act list" where
  "ipfs_save_step encode toString (s, None) e = ((s, None), [])"
| "ipfs_save_step encode toString (s, Some pb) (Published result) =
     (let (s1, as) = on_published encode toString pb result s in ((s1, None), as))"

fun ipfs_save_live :: "'x os_scheme \<times> publish option \<Rightarrow> bool" where
  "ipfs_save_live (s, pb) \<longleftrightarrow> pb \<noteq> None"

lemma completions_on_published:
  "on_published encode toString pb r s = (s', as) \<Longrightarrow> completions as = 1"
  by (auto simp: published_defs AnnounceCID_def split: if_splits sum.splits option.splits)

interpretation ipfs_save: one_shot "ipfs_save_step encode toString" "\<lambda>_. True" ipfs_save_live
  for encode :: "'c \<Rightarrow> bytes option" and toString :: "'c \<Rightarrow> string option"
proof unfold_locales
  fix s s' :: "'x os_scheme \<times> publish option" and e :: "'c publish_event" and as
  show True by simp
  obtain o1 p where s: "s = (o1, p)" by force
  obtain r where e: "e = Published r" by (cases e) auto
  show "ipfs_save_live s \<Longrightarrow> ipfs_save_step encode toString s e = (s', as) \<Longrightarrow>
      completions as = (if ipfs_save_live s' then 0 else 1)"
    using s e completions_on_published[of encode toString] by (auto split: prod.splits) fastforce
  show "\<not> ipfs_save_live s \<Longrightarrow> ipfs_save_step encode toString s e = (s', as) \<Longrightarrow>
      \<not> ipfs_save_live s' \<and> completions as = 0"
    using s by auto
qed

lemma ipfs_save_starts:
  assumes "IPFSSaver_SaveASync tmp now throws v filename data sfx loc s = (Inr (), st, as)"
  shows "completions as = (if ipfs_save_live st then 0 else 1)"
  using assms
  by (auto simp: ipfs_save_defs Let_def
      split: sum.splits option.splits prod.splits if_splits bool.splits)


lemma sample_ipfs_save:
  "IPFSSaver_SaveASync (Inr ''/tmp'') ''1'' (\<lambda>_. False) \<lparr>saverBitswap = None, saverDht = None\<rparr> ''x''
     (Inr (Some ([''f''], [''hi''])) :: unit result_type) [] True empty_os =
   (Inr (), (empty_os, None), [Post_write])"
  by (simp add: ipfs_save_defs Let_def)


section \<open>The temporary file\<close>

text \<open>
  C31: when the save of a single file has been handed to Bitswap, the temporary file holds
  exactly the bytes of the save, and when the result has come in, whatever it is, the
  file is gone.
\<close>

theorem ipfs_single_file_published:
  assumes "IPFSSaver_SaveASync (Inr dir) now throws v filename (Inr (Some ([name], [content]))) sfx loc s =
      (Inr (), (s', Some pb), as)"
  shows "pb_path pb = path_append dir (''ipfs_temp_'' @ now) \<and> \<not> pb_is_dir pb \<and>
    Some (pb_bitswap pb) = saverBitswap v \<and>
    node_at s' (resolve_path s' (pb_path pb)) = Some (Regular content) \<and>
    node_at (fst (on_published encode toString pb result s')) (resolve_path s' (pb_path pb)) = None"
proof -
  let ?p = "path_append dir (''ipfs_temp_'' @ now)"
  obtain b where b: "saverBitswap v = Some b"
    using assms by (auto simp: ipfs_save_defs Let_def split: option.splits)
  obtain s1 where o: "ofstream_open ?p s = (True, s1)"
      and s': "s' = write_at_start (resolve_path s1 ?p) content s1"
      and pb: "pb = \<lparr>pb_path = ?p, pb_is_dir = False, pb_bitswap = b, pb_dht = saverDht v, pb_location = loc\<rparr>"
    using assms b by (auto simp: ipfs_save_defs Let_def split: prod.splits bool.splits if_splits)
  note facts = ofstream_open_True[OF o]
  have res: "resolve_path s1 ?p = resolve_path s ?p" by (rule same_place_resolve[OF facts(3)])
  have "same_place s s'" unfolding s' using facts(3) by simp
  then have res': "resolve_path s' ?p = resolve_path s ?p" by (rule same_place_resolve)
  have "node_at s' (resolve_path s ?p) = Some (Regular content)"
    using facts(4)[of "resolve_path s ?p"] unfolding s' res by (simp del: append_Cons append_Nil)
  moreover have "node_at (remove_file ?p s') (resolve_path s ?p) = None"
    using facts(1) res' by (simp add: remove_file_def node_at_def)
  ultimately show ?thesis using pb b res' by (simp add: published_defs)
qed

lemma ipfs_single_file_published_witness:
  "node_at (fst (fst (snd (IPFSSaver_SaveASync (Inr ''/tmp'') ''1'' (\<lambda>_. False)
       \<lparr>saverBitswap = Some 4, saverDht = None\<rparr> ''x'' (Inr (Some ([''f''], [''hi''])) :: unit result_type) [] True
       (put_node [''tmp''] Directory empty_os))))) [''tmp'', ''ipfs_temp_1''] = Some (Regular ''hi'')"
proof -
  let ?pb = "\<lparr>pb_path = ''/tmp/ipfs_temp_1'', pb_is_dir = False, pb_bitswap = 4, pb_dht = None, pb_location = True\<rparr>"
  let ?r = "IPFSSaver_SaveASync (Inr ''/tmp'') ''1'' (\<lambda>_. False)
       \<lparr>saverBitswap = Some 4, saverDht = None\<rparr> ''x'' (Inr (Some ([''f''], [''hi''])) :: unit result_type) [] True
       (put_node [''tmp''] Directory empty_os)"
  have app: "path_append ''/tmp'' ''ipfs_temp_1'' = ''/tmp/ipfs_temp_1''"
    by (simp add: path_append_def path_is_absolute_def path_filename_def)
  have "fst ?r = Inr ()" "snd (fst (snd ?r)) = Some ?pb" "snd (snd ?r) = []"
    and os: "os_cwd (fst (fst (snd ?r))) = [''home'']"
    by (simp_all add: ipfs_save_defs os_eval path_append_def write_at_start_def Let_def)
  then have r: "?r = (Inr (), (fst (fst (snd ?r)), Some ?pb), [])" by (metis prod.collapse)
  from ipfs_single_file_published[OF r, of "\<lambda>c. Some c" "\<lambda>c. Some c" "Inl ()"]
  show ?thesis by (simp add: resolve_path_def path_is_absolute_def)
qed

section \<open>Directories in flight\<close>

text \<open>One round of the loop: what it may change, and how it goes on.\<close>

lemma write_files_Cons:
  assumes "write_files dir ((name, content) # files) s = (r, s')"
  obtains s2 where "same_place s s2"
    "\<forall>q. q \<noteq> resolve_path s (path_append dir name) \<longrightarrow> node_at s2 q = node_at s q \<or>
       node_at s q = None \<and> prefix q (resolve_path s (path_parent (path_append dir name)))"
    "write_files dir files s2 = (r, s') \<or> s' = s2"
proof -
  let ?p = "path_append dir name"
  obtain r1 s1 where c: "create_directories (path_parent ?p) s = (r1, s1)" by force
  obtain b s2 where o: "ofstream_open ?p s1 = (b, s2)" by force
  have sp1: "same_place s s1" by (rule create_directories_same_place[OF c])
  have made: "node_at s1 q = node_at s q \<or>
      node_at s q = None \<and> prefix q (resolve_path s (path_parent ?p))" for q
    using create_directories_nodes[OF c] by blast
  have res: "resolve_path s1 ?p = resolve_path s ?p" by (rule same_place_resolve[OF sp1])
  show ?thesis
  proof (cases r1)
    case (Inl e)
    with assms c have "s' = s1" by (simp add: Let_def)
    with that[OF sp1] made show ?thesis by blast
  next
    case (Inr u)
    show ?thesis
    proof (cases b)
      case False
      with o have "s2 = s1" by (auto dest: ofstream_open_False)
      with assms c o Inr False have "write_files dir files s1 = (r, s')" by (simp add: Let_def)
      with that[OF sp1] made show ?thesis by blast
    next
      case True
      with o have o': "ofstream_open ?p s1 = (True, s2)" by simp
      let ?s3 = "write_at_start (resolve_path s2 ?p) content s2"
      have sp2: "same_place s ?s3" using same_place_trans[OF sp1 ofstream_open_True(3)[OF o']] by simp
      have res2: "resolve_path s2 ?p = resolve_path s ?p"
        using same_place_resolve[OF ofstream_open_True(3)[OF o']] res by simp
      have "node_at ?s3 q = node_at s1 q" if "q \<noteq> resolve_path s ?p" for q
        using that ofstream_open_True(4)[OF o', of q] by (simp add: res res2)
      with made have frame: "\<forall>q. q \<noteq> resolve_path s ?p \<longrightarrow> node_at ?s3 q = node_at s q \<or>
          node_at s q = None \<and> prefix q (resolve_path s (path_parent ?p))" by metis
      from assms c o' Inr have "write_files dir files ?s3 = (r, s')" by (simp add: Let_def)
      with that[OF sp2 frame] show ?thesis by blast
    qed
  qed
qed

lemma write_files_frame:
  assumes "write_files dir files s = (r, s')"
    and "\<forall>(n, c)\<in>set files. q \<noteq> resolve_path s (path_append dir n) \<and>
      \<not> prefix q (resolve_path s (path_parent (path_append dir n)))"
  shows "node_at s' q = node_at s q \<and> same_place s s'"
  using assms
proof (induction files arbitrary: s)
  case (Cons f files)
  obtain n c where f: "f = (n, c)" by force
  from Cons.prems(1)[unfolded f] obtain s2 where sp: "same_place s s2"
    and frame: "\<forall>q. q \<noteq> resolve_path s (path_append dir n) \<longrightarrow> node_at s2 q = node_at s q \<or>
       node_at s q = None \<and> prefix q (resolve_path s (path_parent (path_append dir n)))"
    and cont: "write_files dir files s2 = (r, s') \<or> s' = s2"
    by (rule write_files_Cons)
  have q: "node_at s2 q = node_at s q" using frame Cons.prems(2) f by auto
  from cont show ?case
  proof
    assume w: "write_files dir files s2 = (r, s')"
    have "node_at s' q = node_at s2 q \<and> same_place s2 s'"
      by (rule Cons.IH[OF w]) (use Cons.prems(2) same_place_resolve[OF sp] in auto)
    with q sp same_place_trans show ?thesis by metis
  next
    assume "s' = s2"
    with q sp show ?thesis by simp
  qed
qed simp

lemma publish_dir_paths:
  assumes "plain_name n"
  shows "path_append publish_dir n = publish_dir @ ''/'' @ n"
    "path_parent (publish_dir @ CHR ''/'' # n) = publish_dir"
    "resolve_path s (publish_dir @ CHR ''/'' # n) = resolve_path s publish_dir @ [n]"
proof -
  have "\<not> path_is_absolute n" using assms by (cases n) (auto simp: plain_name_def path_is_absolute_def)
  then show "path_append publish_dir n = publish_dir @ ''/'' @ n"
    by (intro path_append_relative) (simp_all add: publish_dir_def path_filename_def)
  show "path_parent (publish_dir @ CHR ''/'' # n) = publish_dir"
    using assms by (intro path_parent_slash) (simp_all add: plain_name_def publish_dir_def)
  show "resolve_path s (publish_dir @ CHR ''/'' # n) = resolve_path s publish_dir @ [n]"
    using assms by (intro resolve_plain) (simp_all add: publish_dir_def)
qed


definition busy_os :: os where
  "busy_os = put_node [''home'', publish_dir, ''a''] (Regular ''1'')
     (put_node [''home'', publish_dir] Directory (put_node [''home''] Directory empty_os))"


section \<open>The reported location\<close>

text \<open>
  The location that a published save reports, \<open>ipfs://CID\<close>, cannot be loaded: the
  loader rejects it as an invalid URL because it has no slash after the CID, although
  the same location with a file name appended is accepted.
\<close>

theorem ipfs_location_not_loadable:
  assumes "toString cid = Some cidString" and "pb_location pb"
    and "cidString \<noteq> []" and "CHR ''/'' \<notin> set cidString"
  shows "Io (Ipfs_location (''ipfs://'' @ cidString)) \<in> set (snd (on_published encode toString pb (Inr cid) s)) \<and>
    components (''ipfs://'' @ cidString) =
      Inr \<lparr>up_prefix = ''ipfs'', up_base = cidString, up_extension = extension_of cidString\<rparr> \<and>
    IPFSLoader_LoadASync cid_of k1 k2 k3 l cidString parse save inst0 =
      Inr (''init'', Reject IPFS_INVALID_URL, inst0) \<and>
    parseIPFSUrl (cidString @ ''/'' @ f) \<lparr>ip_cid = [], ip_file = []\<rparr> =
      Some (True, \<lparr>ip_cid = cidString, ip_file = f\<rparr>)"
proof -
  have "\<not> sublist ''://'' ''ipfs''"
    using str_find_None_iff[of "''://''" "''ipfs''"] by simp
  note comp = components_scheme[OF this, of cidString]
  have rej: "parseIPFSUrl cidString out = Some (False, out)" for out
    using assms(3,4) by (simp add: parseIPFSUrl_def str_find_char)
  have acc: "parseIPFSUrl (cidString @ ''/'' @ f) \<lparr>ip_cid = [], ip_file = []\<rparr> =
      Some (True, \<lparr>ip_cid = cidString, ip_file = f\<rparr>)"
    using assms(3,4) str_find_char_append[of "CHR ''/''" cidString f]
    by (simp add: parseIPFSUrl_def substr_def)
  show ?thesis using comp rej acc assms(1,2) by (simp add: published_defs IPFSLoader_LoadASync_def)
qed

lemma ipfs_location_not_loadable_witness:
  "IPFSLoader_LoadASync (\<lambda>s. Some s) True True True \<lparr>externalBitswap = None, externalDht = None\<rparr> ''Qm'' False False None =
     Inr (''init'', Reject IPFS_INVALID_URL, None)"
  using ipfs_location_not_loadable[of "\<lambda>c. Some c" "''Qm''" "''Qm''"
     "\<lparr>pb_path = ''p'', pb_is_dir = True, pb_bitswap = 1, pb_dht = None, pb_location = True\<rparr>"
     "\<lambda>c. Some c" empty_os "\<lambda>s. Some s" True True True "\<lparr>externalBitswap = None, externalDht = None\<rparr>"
     False False None "''f''"]
  by simp

end
