(* ===== verification/FileTree.thy ===== *)
theory FileTree
  imports MnnFiles IpfsSaver
begin

text \<open>
  The type of the file system: every entry has a name a directory can hold, lies in a
  directory, and no descriptor is open twice. Every operation of the local loader and of
  the savers that work on files keeps it, in any order and interleaving
  (\<open>src/MNNLoader.cpp\<close>, \<open>src/MNNSaver.cpp\<close>, \<open>src/IPFSSaver.cpp\<close>, \<open>src/FILECommon.cpp\<close>).
\<close>

section \<open>Well-formed file systems\<close>

definition plain_path :: "string list \<Rightarrow> bool" where
  "plain_path q \<longleftrightarrow> (\<forall>c\<in>set q. plain_name c)"

definition os_wf :: "'x os_scheme \<Rightarrow> bool" where
  "os_wf s \<longleftrightarrow> plain_path (os_cwd s) \<and> distinct (os_fds s) \<and>
     (\<forall>q. q \<noteq> [] \<longrightarrow> node_at s q \<noteq> None \<longrightarrow> plain_path q \<and> node_at s (butlast q) = Some Directory)"

named_theorems os_wf_intros "operations that keep a file system well-formed"

text \<open>So every proper prefix of an entry's path is a directory.\<close>

lemma os_wf_ancestors:
  "os_wf s \<Longrightarrow> node_at s q \<noteq> None \<Longrightarrow> strict_prefix p q \<Longrightarrow> node_at s p = Some Directory"
proof (induction q rule: rev_induct)
  case (snoc c q)
  then have "node_at s q = Some Directory" by (auto simp: os_wf_def)
  with snoc show ?case by (cases "p = q") (auto simp: strict_prefix_def)
qed simp

lemma split_slash_no_slash: "c \<in> set (split_slash p) \<Longrightarrow> CHR ''/'' \<notin> set c"
  by (induction p arbitrary: c) (auto split: list.splits if_splits)

lemma walk_path_plain:
  "plain_path d \<Longrightarrow> \<forall>c\<in>set cs. CHR ''/'' \<notin> set c \<Longrightarrow> plain_path (walk_path d cs)"
proof (induction cs arbitrary: d)
  case (Cons c cs)
  have "plain_path (butlast d)" using Cons.prems(1) by (auto simp: plain_path_def dest: in_set_butlastD)
  moreover have "plain_path (d @ [c])" if "c \<noteq> []" "c \<noteq> ''.''" "c \<noteq> ''..''"
    using Cons.prems that by (simp add: plain_path_def plain_name_def)
  ultimately show ?case using Cons.prems Cons.IH by simp
qed simp

lemma resolve_plain_path: "os_wf s \<Longrightarrow> plain_path (resolve_path s p)"
  unfolding resolve_path_def
  by (rule walk_path_plain) (auto simp: os_wf_def plain_path_def dest: split_slash_no_slash)

section \<open>The primitives\<close>

text \<open>
  An entry may be added where its directory exists, and be overwritten by an entry of its
  own kind.
\<close>

lemma os_wf_put:
  assumes "os_wf s" and "plain_path q" and "node_at s (butlast q) = Some Directory"
    and "node_at s q = Some Directory \<Longrightarrow> n = Directory"
  shows "os_wf (put_node q n s)"
proof -
  have "node_at (put_node q n s) (butlast r) = Some Directory"
    if "r \<noteq> []" "node_at (put_node q n s) r \<noteq> None" for r
  proof (cases "r = q")
    case True
    with that(1) have "butlast r \<noteq> q" by (metis append_butlast_last_id append_self_conv not_Cons_self2)
    with True assms(3) show ?thesis by simp
  next
    case False
    with that assms(1) have d: "node_at s (butlast r) = Some Directory" by (auto simp: os_wf_def)
    with assms(4) show ?thesis by (cases "butlast r = q") auto
  qed
  with assms(1,2) show ?thesis by (auto simp: os_wf_def split: if_splits)
qed

lemma os_wf_put_file:
  assumes "os_wf s" and "node_at s q = Some (Regular c)"
  shows "os_wf (put_node q (Regular c') s)"
proof (cases "q = []")
  case False
  with assms show ?thesis by (intro os_wf_put) (auto simp: os_wf_def)
qed (use assms in \<open>simp add: node_at_def\<close>)

lemma os_wf_put_new:
  "os_wf s \<Longrightarrow> plain_path q \<Longrightarrow> node_at s (butlast q) = Some Directory \<Longrightarrow> node_at s q = None \<Longrightarrow>
   os_wf (put_node q n s)"
  by (rule os_wf_put) auto

lemma os_wf_write [os_wf_intros]: "os_wf s \<Longrightarrow> os_wf (write_at_start q bs s)"
  using os_wf_put_file[of s q]
  by (cases "q = []") (auto simp: write_at_start_def node_at_def os_wf_def split: option.splits node.splits)

lemma os_wf_fds: "os_wf s \<Longrightarrow> distinct fds \<Longrightarrow> os_wf (s\<lparr>os_fds := fds\<rparr>)"
  by (simp add: os_wf_def)

lemma os_wf_close [os_wf_intros]: "os_wf s \<Longrightarrow> os_wf (close_fd fd s)"
  using os_wf_fds[of s] by (simp add: close_fd_def os_wf_def)

lemma os_wf_destroy [os_wf_intros]: "os_wf s \<Longrightarrow> os_wf (destroy_FILEDevice dev s)"
  by (simp add: destroy_FILEDevice_def destroy_close_number_def destroy_close_stream_def os_wf_close)

lemma os_wf_make_dirs:
  "os_wf s \<Longrightarrow> plain_path (q @ cs) \<Longrightarrow> node_at s q = Some Directory \<Longrightarrow> make_dirs q cs s = (r, s') \<Longrightarrow>
   os_wf s'"
proof (induction cs arbitrary: q s)
  case (Cons c cs)
  have plain: "plain_path ((q @ [c]) @ cs)" using Cons.prems(2) by simp
  from Cons.prems(4) show ?case
  proof (cases rule: make_dirs_Cons_cases)
    case enter
    from Cons.IH[OF Cons.prems(1) plain enter] show ?thesis .
  next
    case create
    have "os_wf (put_node (q @ [c]) Directory s)"
      using Cons.prems(1-3) create(1) by (intro os_wf_put_new) (auto simp: plain_path_def)
    from Cons.IH[OF this plain _ create(3)] show ?thesis by simp
  qed (use Cons.prems in simp)
qed simp

lemma os_wf_create_directories [os_wf_intros]:
  "os_wf s \<Longrightarrow> create_directories p s = (r, s') \<Longrightarrow> os_wf s'"
  using os_wf_make_dirs[of s "[]" "resolve_path s p"] resolve_plain_path[of s p]
  by (auto simp: create_directories_def node_at_def split: if_splits)

lemma os_wf_open_create [os_wf_intros]:
  "os_wf s \<Longrightarrow> open_create p s = (r, s') \<Longrightarrow> os_wf s'"
  using resolve_plain_path[of s p]
  by (auto simp: open_create_def Let_def intro: os_wf_put_new split: if_splits option.splits node.splits)

lemma os_wf_ofstream [os_wf_intros]:
  assumes "os_wf s" and "ofstream_open p s = (b, s')"
  shows "os_wf s'"
proof -
  obtain r s1 where o: "open_create p s = (r, s1)" by force
  show ?thesis
  proof (cases r)
    case (Inl e)
    with o assms os_wf_open_create[OF assms(1) o] show ?thesis by (simp add: ofstream_open_def)
  next
    case (Inr q)
    from open_create_Inr(6)[OF o[unfolded Inr], of q] obtain c where "node_at s1 q = Some (Regular c)" by auto
    from os_wf_put_file[OF os_wf_open_create[OF assms(1) o] this, of "[]"] show ?thesis
      using o Inr assms(2) by (auto simp: ofstream_open_def)
  qed
qed

lemma os_wf_posix_open: "os_wf s \<Longrightarrow> posix_open p flags s = (r, s') \<Longrightarrow> os_wf s'"
  using os_wf_open_create[of s p] free_fd_not_open
  by (auto simp: posix_open_def Let_def os_wf_def split: open_flags.splits sum.splits prod.splits)

lemma os_wf_Open [os_wf_intros]: "os_wf s \<Longrightarrow> FILEDevice_Open assign dev s = (ec, dev', s') \<Longrightarrow> os_wf s'"
  using os_wf_posix_open[of s]
  by (auto simp: FILEDevice_Open_def intro: os_wf_close split: sum.splits prod.splits if_splits)

section \<open>The operations of the loaders and savers\<close>

lemma os_wf_LoadASync [os_wf_intros]:
  "os_wf s \<Longrightarrow> MNNLoader_LoadASync assign filename parse save s = (msg, ml, as, s') \<Longrightarrow> os_wf s'"
  by (auto simp: MNNLoader_LoadASync_def Let_def intro: os_wf_Open split: prod.splits if_splits)

lemma os_wf_SaveFile [os_wf_intros]:
  assumes "os_wf s" and "MNNSaver_SaveFile filename data s = (r, s')"
  shows "os_wf s'"
proof -
  obtain b s1 where os: "ofstream_open filename s = (b, s1)" by force
  note wf = os_wf_ofstream[OF assms(1) os]
  from assms os wf os_wf_write[OF wf] show ?thesis
    by (auto simp: MNNSaver_SaveFile_def split: option.splits bool.splits)
qed

lemma os_wf_mnn_save_file:
  assumes "os_wf (ms_os ms)" and "mnn_save_file assign p contents ms = (r, ms1, as)"
  shows "os_wf (ms_os ms1)"
proof -
  obtain rc s1 where cd: "create_directories (path_parent p) (ms_os ms) = (rc, s1)" by force
  obtain b s2 where os: "ofstream_open p s1 = (b, s2)" by force
  obtain ec dev s3 where fo: "FILEDevice_Open assign (FILEDevice p 1) s2 = (ec, dev, s3)" by (metis prod_cases3)
  note wf1 = os_wf_create_directories[OF assms(1) cd]
  note wf3 = os_wf_Open[OF os_wf_ofstream[OF wf1 os] fo]
  from assms(2) cd os fo wf1 wf3 show ?thesis
    by (auto simp: mnn_save_file_def Let_def split: sum.splits if_splits list.splits)
qed

lemma os_wf_mnn_save_loop:
  "os_wf (ms_os ms) \<Longrightarrow> mnn_save_loop assign d names contents ms = (r, ms', as) \<Longrightarrow> os_wf (ms_os ms')"
proof (induction names arbitrary: contents ms)
  case (Cons n names)
  from Cons.prems(2) show ?case
  proof (cases rule: mnn_save_loop_Cons_cases)
    case (go ms1)
    from Cons.IH[OF os_wf_mnn_save_file[OF Cons.prems(1) go(1)] go(2)] show ?thesis .
  qed (use os_wf_mnn_save_file[OF Cons.prems(1)] in blast)+
qed simp

lemma os_wf_SaveASync [os_wf_intros]:
  "os_wf s \<Longrightarrow> MNNSaver_SaveASync assign uuid filename data sfx loc s = (r, ms, as) \<Longrightarrow> os_wf (ms_os ms)"
  by (auto simp: MNNSaver_SaveASync_def Let_def split: sum.splits option.splits if_splits prod.splits
      dest!: os_wf_mnn_save_loop[rotated])

lemma os_wf_mnn_save_step [os_wf_intros]:
  "os_wf (ms_os ms) \<Longrightarrow> mnn_save_step ms e = (ms', as) \<Longrightarrow> os_wf (ms_os ms')"
  by (cases e) (auto simp: Let_def intro!: os_wf_destroy os_wf_write split: if_splits prod.splits)

lemma os_wf_remove_file:
  "os_wf s \<Longrightarrow> node_at s (resolve_path s p) \<noteq> Some Directory \<Longrightarrow> os_wf (remove_file p s)"
  by (auto simp: os_wf_def remove_file_def node_at_def split: if_splits)

lemma os_wf_remove_all [os_wf_intros]: "os_wf s \<Longrightarrow> os_wf (remove_all_below p s)"
  using prefix_order.trans[OF _ prefixeq_butlast]
  by (auto simp: os_wf_def remove_all_below_def node_at_def split: if_splits)

lemma os_wf_write_files:
  "os_wf s \<Longrightarrow> write_files dir files s = (r, s') \<Longrightarrow> os_wf s'"
proof (induction dir files s rule: write_files.induct)
  case (2 dir name content files s)
  let ?p = "path_append dir name"
  obtain rc s1 where cd: "create_directories (path_parent ?p) s = (rc, s1)" by force
  obtain b s2 where os: "ofstream_open ?p s1 = (b, s2)" by force
  note wf1 = os_wf_create_directories[OF "2.prems"(1) cd]
  note wf2 = os_wf_ofstream[OF wf1 os]
  show ?case
  proof (cases rc)
    case (Inr u)
    with 2 cd os wf1 wf2 os_wf_write[OF wf2] show ?thesis by (cases b) (auto simp: Let_def)
  qed (use 2 cd wf1 in \<open>simp add: Let_def\<close>)
qed simp

lemma os_wf_publish_single_file:
  assumes "os_wf s" and "publish_single_file tmp now throws b dht contents loc s = (r, (s', pb), as)"
  shows "os_wf s'"
proof (cases tmp)
  case (Inr dir)
  let ?p = "path_append dir (''ipfs_temp_'' @ now)"
  obtain op s1 where os: "ofstream_open ?p s = (op, s1)" by force
  let ?s2 = "write_at_start (resolve_path s1 ?p) (hd contents) s1"
  note wf1 = os_wf_ofstream[OF assms(1) os]
  show ?thesis
  proof (cases op)
    case True
    with os have "ofstream_open ?p s = (True, s1)" by simp
    note o = ofstream_open_True[OF this]
    have "same_place s1 ?s2" by simp
    from same_place_resolve[OF this] have "resolve_path ?s2 ?p = resolve_path s1 ?p" .
    then have "node_at ?s2 (resolve_path ?s2 ?p) \<noteq> Some Directory"
      using o(4)[of "resolve_path s1 ?p"] same_place_resolve[OF o(3)] by simp
    from os_wf_remove_file[OF os_wf_write[OF wf1] this] os_wf_write[OF wf1] show ?thesis
      using assms(2) Inr os True by (auto simp: publish_single_file_def Let_def split: if_splits)
  qed (use assms(2) Inr os wf1 in \<open>auto simp: publish_single_file_def Let_def\<close>)
qed (use assms in \<open>simp add: publish_single_file_def\<close>)

lemma os_wf_publish_directory:
  assumes "os_wf s" and "publish_directory throws b dht paths contents loc s = (r, (s', pb), as)"
  shows "os_wf s'"
proof -
  let ?s1 = "if path_exists s publish_dir then remove_all_below publish_dir s else s"
  obtain rc s2 where cd: "create_directories publish_dir ?s1 = (rc, s2)" by force
  obtain rw s3 where wr: "write_files publish_dir (zip paths contents) s2 = (rw, s3)" by force
  have "os_wf ?s1" using assms(1) by (simp add: os_wf_remove_all)
  note wf2 = os_wf_create_directories[OF this cd]
  note wf3 = os_wf_write_files[OF wf2 wr]
  from assms(2) cd wr wf3 os_wf_remove_all[OF wf2] os_wf_remove_all[OF wf3] show ?thesis
    by (auto simp: publish_directory_def Let_def split: sum.splits if_splits)
qed

lemma os_wf_ipfs_save [os_wf_intros]:
  "os_wf s \<Longrightarrow> IPFSSaver_SaveASync tmp now throws v filename data sfx loc s = (r, (s', pb), as) \<Longrightarrow> os_wf s'"
  by (auto simp: IPFSSaver_SaveASync_def Let_def intro: os_wf_publish_single_file os_wf_publish_directory
      split: sum.splits option.splits if_splits)

section \<open>Any order of operations\<close>

text \<open>
  One operation on the file system: a call of a loader or saver, the handler of a read or of
  a write, the callback of a publication. The temporary file a publication removes is not a
  directory. The savers do not look at the error of the data, so it is a \<open>unit\<close>.
\<close>

inductive tree_step ::
  "('c \<Rightarrow> bytes option) \<Rightarrow> ('c \<Rightarrow> string option) \<Rightarrow> 'x os_scheme \<Rightarrow> 'x os_scheme \<Rightarrow> bool"
  for encode toString where
  load_async: "MNNLoader_LoadASync assign filename parse save s = (msg, ml, as, s') \<Longrightarrow>
    tree_step encode toString s s'"
| load_handled: "tree_step encode toString s (destroy_FILEDevice (ml_device (ml :: mnn_load)) s)"
| save_file: "MNNSaver_SaveFile filename data s = (r, s') \<Longrightarrow> tree_step encode toString s s'"
| save_async: "MNNSaver_SaveASync assign uuid filename (data :: unit result_type) sfx loc s = (r, ms, as) \<Longrightarrow>
    tree_step encode toString s (ms_os ms)"
| save_handled: "mnn_save_step ms e = (ms', as) \<Longrightarrow> tree_step encode toString (ms_os ms) (ms_os ms')"
| ipfs_save: "IPFSSaver_SaveASync tmp now throws v filename (data :: unit result_type) sfx loc s =
    (r, (s', pb), as) \<Longrightarrow> tree_step encode toString s s'"
| file_published: "node_at s (resolve_path s (pb_path pb)) \<noteq> Some Directory \<Longrightarrow>
    on_file_published encode toString pb result s = (s', as) \<Longrightarrow> tree_step encode toString s s'"
| directory_published: "on_directory_published encode toString pb result s = (s', as) \<Longrightarrow>
    tree_step encode toString s s'"

lemma tree_step_wf: "tree_step encode toString s s' \<Longrightarrow> os_wf s \<Longrightarrow> os_wf s'"
  by (induction rule: tree_step.induct)
    (auto simp: on_file_published_def on_directory_published_def intro: os_wf_intros os_wf_remove_file)


lemma os_wf_empty: "os_wf empty_os"
  by (simp add: os_wf_def empty_os_def plain_path_def plain_name_def node_at_def)


end
