(* ===== verification/IpfsLoads.thy ===== *)
theory IpfsLoads
  imports IpfsDevice Delivery Ledger
begin

text \<open>
  Any number of plain IPFS loads at the same time, on the singleton device that
  \<open>IPFSLoader::LoadASync\<close> (\<open>src/IPFSLoader.cpp\<close>) uses when no external Bitswap is set: the
  loads share one device and its one retry timer (\<open>src/IPFSCommon.cpp\<close>), their completions
  are posted to the io_context and end in \<open>handle_read\<close> of \<open>FileManager\<close>.
\<close>

section \<open>The handlers of the device as events\<close>

datatype 'a ipfs_event =
    Run_find nat bool
  | Run_block nat
  | Providers_found nat "unit + 'a list list"
  | Timer_expires
  | Timer_handler nat bool
  | Content_done nat "unit + unixfs_content"

fun ipfs_fire ::
  "('c, 'a, 'p) ipfs_lib \<Rightarrow> 'a ipfs_event \<Rightarrow> ('c, 'a, 'p) ipfs_device \<Rightarrow> ('c, 'a, 'p) ipfs_device \<times> tagged list" where
  "ipfs_fire lib (Run_find i started) d =
     (if i < length (dv_requests d) \<and> state_at i d = Posted_find then StartFindingPeers lib started i d else (d, []))"
| "ipfs_fire lib (Run_block i) d =
     (if i < length (dv_requests d) \<and> state_at i d = Posted_block then RequestBlockMain i d else (d, []))"
| "ipfs_fire lib (Providers_found i res) d =
     (if i < length (dv_requests d) \<and> state_at i d = Finding then on_providers lib res i d else (d, []))"
| "ipfs_fire lib Timer_expires d = (end_waits False d, [])"
| "ipfs_fire lib (Timer_handler i started) d =
     (if i < length (dv_requests d)
      then (case state_at i d of
              Retry_queued aborted \<Rightarrow> on_retry_timer lib started aborted i d
            | _ \<Rightarrow> (d, []))
      else (d, []))"
| "ipfs_fire lib (Content_done i res) d =
     (if i < length (dv_requests d) \<and> state_at i d = Requesting then on_content res i d else (d, []))"

text \<open>Each of them is a step of the device or does nothing.\<close>

lemma ipfs_fire_step:
  assumes "ipfs_fire lib e d = (d', as)"
  shows "ipfs_step lib d as d' \<or> d' = d \<and> as = []"
  using assms
  by (cases "(lib, e, d)" rule: ipfs_fire.cases)
    (auto intro: ipfs_step.intros split: if_splits request_state.splits)

section \<open>FileManager with the IPFS loader\<close>

record ('c, 'a, 'p, 'e) ipfs_world =
  iw_device :: "('c, 'a, 'p) ipfs_device"
  iw_instance :: "bool option"
  iw_callbacks :: "(read_callback \<times> nat) list"
  iw_posted :: "(read_callback \<times> nat \<times> 'e result_type \<times> bool \<times> bool) list"

type_synonym ('q, 'c, 'a, 'p, 'e) ipfs_manager =
  "(loader_object, 'q, saver_object, ('c, 'a, 'p, 'e) ipfs_world, 'e) file_manager"

type_synonym ('q, 'c, 'a, 'p, 'e) ipfs_vtable =
  "(loader_object, 'q, saver_object, ('c, 'a, 'p, 'e) ipfs_world, 'e) vtable"

text \<open>
  The call of the loader without an external Bitswap: it posts a failed completion or a new
  request of the device. \<open>cid_of\<close> decodes a CID, \<open>listen_ok\<close> and \<open>start_ok\<close> are the results of
  making the singleton.
\<close>

definition ipfs_load ::
  "(string \<Rightarrow> 'c option) \<Rightarrow> bool \<Rightarrow> bool \<Rightarrow> (ipfs_loader_error \<Rightarrow> 'e) \<Rightarrow> string \<Rightarrow> bool \<Rightarrow> bool \<Rightarrow> nat \<Rightarrow>
   read_callback \<Rightarrow> ('c, 'a, 'p, 'e) ipfs_world \<Rightarrow> (exn + string) \<times> ('c, 'a, 'p, 'e) ipfs_world" where
  "ipfs_load cid_of listen_ok start_ok wl filename parse save ioc cb w =
     (case IPFSLoader_LoadASync cid_of True listen_ok start_ok \<lparr>externalBitswap = None, externalDht = None\<rparr>
             filename parse save (iw_instance w) of
        Inl e \<Rightarrow> (Inl e, w)
      | Inr (msg, Reject e, inst0) \<Rightarrow>
          (Inr msg, w\<lparr>iw_instance := inst0, iw_posted := iw_posted w @ [(cb, ioc, Inl (wl e), False, False)]\<rparr>)
      | Inr (msg, Post_start tgt st r, inst0) \<Rightarrow>
          (Inr msg, w\<lparr>iw_instance := inst0, iw_callbacks := iw_callbacks w @ [(cb, ioc)],
             iw_device := (iw_device w)\<lparr>dv_requests := dv_requests (iw_device w) @ [(r, st)]\<rparr>\<rparr>))"

definition ipfs_vtable ::
  "(string \<Rightarrow> 'c option) \<Rightarrow> bool \<Rightarrow> bool \<Rightarrow> (ipfs_loader_error \<Rightarrow> 'e) \<Rightarrow> ('q, 'c, 'a, 'p, 'e) ipfs_vtable \<Rightarrow>
   ('q, 'c, 'a, 'p, 'e) ipfs_vtable" where
  "ipfs_vtable cid_of listen_ok start_ok wl other =
     other\<lparr>v_LoadASync := (\<lambda>l. if l = IPFS_loader then ipfs_load cid_of listen_ok start_ok wl else v_LoadASync other l)\<rparr>"

text \<open>What the actions of a handler post: the completion of request \<open>i\<close> with its callback.\<close>

fun posted_by ::
  "(ipfs_error \<Rightarrow> 'e) \<Rightarrow> (read_callback \<times> nat) list \<Rightarrow> tagged \<Rightarrow>
   (read_callback \<times> nat \<times> 'e result_type \<times> bool \<times> bool) list" where
  "posted_by wd cbs (i, Post_read r parse save) =
     (let (cb, ioc) = cbs ! i in [(cb, ioc, map_sum wd (\<lambda>b. b) r, parse, save)])"
| "posted_by wd cbs _ = []"

text \<open>
  With the file manager goes the list of the operations an exception has left counted; the
  application catches what \<open>LoadASync\<close> throws.
\<close>

datatype 'a ipfs_loads_event = Ipfs_load string nat nat | Ipfs_event "'a ipfs_event" | Ipfs_posted

record ('q, 'c, 'a, 'p, 'e) ipfs_system =
  is_fm :: "('q, 'c, 'a, 'p, 'e) ipfs_manager"
  is_leaked :: "nat option list"
  is_requested :: "nat list"

fun ipfs_loads_step ::
  "('q, 'c, 'a, 'p, 'e) ipfs_vtable \<Rightarrow> ('c, 'a, 'p) ipfs_lib \<Rightarrow> (ipfs_error \<Rightarrow> 'e) \<Rightarrow> 'a ipfs_loads_event \<Rightarrow>
   ('q, 'c, 'a, 'p, 'e) ipfs_system \<Rightarrow> ('q, 'c, 'a, 'p, 'e) ipfs_system" where
  "ipfs_loads_step vt lib wd (Ipfs_load url ioc k) s =
     (case LoadASync vt url False False ioc k [] (is_fm s) of
        (Inr _, fm) \<Rightarrow> s\<lparr>is_fm := fm, is_requested := is_requested s @ [k]\<rparr>
      | (Inl _, fm) \<Rightarrow> s\<lparr>is_fm := fm, is_leaked := is_leaked s @
            replicate (nat (outstandingOperations fm - outstandingOperations (is_fm s))) None\<rparr>)"
| "ipfs_loads_step vt lib wd (Ipfs_event e) s =
     (let w = world (is_fm s); (d, as) = ipfs_fire lib e (iw_device w)
      in s\<lparr>is_fm := (is_fm s)\<lparr>world := w\<lparr>iw_device := d,
             iw_posted := iw_posted w @ concat (map (posted_by wd (iw_callbacks w)) as)\<rparr>\<rparr>\<rparr>)"
| "ipfs_loads_step vt lib wd Ipfs_posted s =
     (case iw_posted (world (is_fm s)) of
        [] \<Rightarrow> s
      | (cb, ioc, r, parse, save) # ps \<Rightarrow>
          s\<lparr>is_fm := snd (handle_read vt cb ioc r parse save
             ((is_fm s)\<lparr>world := (world (is_fm s))\<lparr>iw_posted := ps\<rparr>\<rparr>))\<rparr>)"

section \<open>What a handler does\<close>

text \<open>
  It completes nobody and keeps the requests, or it completes one request that had not
  completed, with one posted completion that asks to parse or save only what was asked for.
\<close>

definition open_requests :: "('c, 'a, 'p) ipfs_device \<Rightarrow> nat set" where
  "open_requests d = {i. i < length (dv_requests d) \<and> state_at i d \<noteq> Completed}"

lemma finite_open [simp]: "finite (open_requests d)"
  by (simp add: open_requests_def)

lemma handler_result:
  assumes "i < length (dv_requests d)" and "state_at i d \<noteq> Completed"
    and "acts_for i d d' as" and "as = [] \<or> (\<exists>r p v. as = [(i, Post_read r p v)] \<and>
      (\<not> rq_parse (request_at i d) \<and> \<not> rq_save (request_at i d) \<longrightarrow> \<not> p \<and> \<not> v))"
  shows "length (dv_requests d') = length (dv_requests d)"
    "as = [] \<Longrightarrow> open_requests d' = open_requests d"
    "as \<noteq> [] \<Longrightarrow> open_requests d = insert i (open_requests d') \<and> i \<notin> open_requests d'"
proof -
  note f = assms(3)[unfolded acts_for_def]
  show "length (dv_requests d') = length (dv_requests d)" using f by simp
  have other: "j < length (dv_requests d) \<Longrightarrow> j \<noteq> i \<Longrightarrow> state_at j d' = Completed \<longleftrightarrow> state_at j d = Completed" for j
    using f by auto
  have one: "state_at i d' = Completed \<longleftrightarrow> as \<noteq> []"
    using f assms(4) by (auto split: if_splits dest: spec[of _ i])
  show "as = [] \<Longrightarrow> open_requests d' = open_requests d"
    using f other one assms(1,2) unfolding open_requests_def by auto
  show "as \<noteq> [] \<Longrightarrow> open_requests d = insert i (open_requests d') \<and> i \<notin> open_requests d'"
    using f other one assms(1,2) unfolding open_requests_def by auto
qed

definition plain_requests :: "('c, 'a, 'p) ipfs_device \<Rightarrow> bool" where
  "plain_requests d \<longleftrightarrow> (\<forall>i<length (dv_requests d). \<not> rq_parse (request_at i d) \<and> \<not> rq_save (request_at i d))"

lemma handler_shape:
  "StartFindingPeers lib started i d = (d', as) \<Longrightarrow> as = [] \<or> (\<exists>r. as = [(i, Post_read r False False)])"
  "RequestBlockMain i d = (d', as) \<Longrightarrow> as = []"
  "on_providers lib res i d = (d', as) \<Longrightarrow> as = [] \<or> (\<exists>r. as = [(i, Post_read r False False)])"
  "on_retry_timer lib started aborted i d = (d', as) \<Longrightarrow> as = [] \<or> (\<exists>r. as = [(i, Post_read r False False)])"
  "on_content cres i d = (d', as) \<Longrightarrow>
     \<exists>r p v. as = [(i, Post_read r p v)] \<and> (\<not> rq_parse (request_at i d) \<and> \<not> rq_save (request_at i d) \<longrightarrow> \<not> p \<and> \<not> v)"
  by (auto simp: handler_defs convertUnixFSContentToResult_def Let_def split: if_splits sum.splits)

text \<open>One event: nobody completes, or exactly one request that was open.\<close>

definition fires :: "('c, 'a, 'p) ipfs_device \<Rightarrow> ('c, 'a, 'p) ipfs_device \<Rightarrow> tagged list \<Rightarrow> bool" where
  "fires d d' as \<longleftrightarrow> length (dv_requests d') = length (dv_requests d) \<and> plain_requests d' \<and>
     (as = [] \<and> open_requests d' = open_requests d \<or>
      (\<exists>i r. as = [(i, Post_read r False False)] \<and> i < length (dv_requests d) \<and>
         open_requests d = insert i (open_requests d') \<and> i \<notin> open_requests d'))"

lemma fires_handler:
  assumes "plain_requests d" and "i < length (dv_requests d)" and "state_at i d \<noteq> Completed"
    and "acts_for i d d' as" and "as = [] \<or> (\<exists>r p v. as = [(i, Post_read r p v)] \<and>
      (\<not> rq_parse (request_at i d) \<and> \<not> rq_save (request_at i d) \<longrightarrow> \<not> p \<and> \<not> v))"
  shows "fires d d' as"
proof -
  note h = handler_result[OF assms(2-5)]
  have "plain_requests d'"
    using assms(1,4) by (simp add: plain_requests_def acts_for_def)
  moreover have "as = [] \<or> (\<exists>r. as = [(i, Post_read r False False)])"
    using assms(1,2,5) by (auto simp: plain_requests_def)
  ultimately show ?thesis
    using h assms(2) unfolding fires_def by auto
qed

lemma ipfs_fire_fires:
  assumes "ipfs_fire lib e d = (d', as)" and "plain_requests d"
  shows "fires d d' as"
proof -
  have idle: "fires d d []" using assms(2) by (simp add: fires_def)
  show ?thesis
  proof (cases e)
    case (Run_find i started)
    show ?thesis
    proof (cases "i < length (dv_requests d) \<and> state_at i d = Posted_find")
      case True
      with Run_find assms have h: "StartFindingPeers lib started i d = (d', as)" by simp
      show ?thesis
        by (rule fires_handler[OF assms(2) _ _ handler_acts_for(1)[OF _ h]]) (use True handler_shape(1)[OF h] in auto)
    qed (use Run_find assms(1) idle in auto)
  next
    case (Run_block i)
    show ?thesis
    proof (cases "i < length (dv_requests d) \<and> state_at i d = Posted_block")
      case True
      with Run_block assms have h: "RequestBlockMain i d = (d', as)" by simp
      show ?thesis
        by (rule fires_handler[OF assms(2) _ _ handler_acts_for(2)[OF _ h]]) (use True handler_shape(2)[OF h] in auto)
    qed (use Run_block assms(1) idle in auto)
  next
    case (Providers_found i res)
    show ?thesis
    proof (cases "i < length (dv_requests d) \<and> state_at i d = Finding")
      case True
      with Providers_found assms have h: "on_providers lib res i d = (d', as)" by simp
      show ?thesis
        by (rule fires_handler[OF assms(2) _ _ handler_acts_for(3)[OF _ h]]) (use True handler_shape(3)[OF h] in auto)
    qed (use Providers_found assms(1) idle in auto)
  next
    case Timer_expires
    have "open_requests (end_waits False d) = open_requests d" by (auto simp: open_requests_def split: if_splits)
    with Timer_expires assms show ?thesis by (auto simp: fires_def plain_requests_def)
  next
    case (Timer_handler i started)
    show ?thesis
    proof (cases "i < length (dv_requests d) \<and> (\<exists>a. state_at i d = Retry_queued a)")
      case True
      then obtain a where a: "state_at i d = Retry_queued a" by blast
      with True Timer_handler assms have h: "on_retry_timer lib started a i d = (d', as)" by simp
      show ?thesis
        by (rule fires_handler[OF assms(2) _ _ handler_acts_for(4)[OF _ h]]) (use True a handler_shape(4)[OF h] in auto)
    qed (use Timer_handler assms(1) idle in \<open>auto split: request_state.splits if_splits\<close>)
  next
    case (Content_done i res)
    show ?thesis
    proof (cases "i < length (dv_requests d) \<and> state_at i d = Requesting")
      case True
      with Content_done assms have h: "on_content res i d = (d', as)" by simp
      show ?thesis
        by (rule fires_handler[OF assms(2) _ _ handler_acts_for(5)[OF _ h]]) (use True handler_shape(5)[OF h] in auto)
    qed (use Content_done assms(1) idle in auto)
  qed
qed

section \<open>The loads as a ledger\<close>

definition call_of :: "(read_callback \<times> nat) list \<Rightarrow> nat \<Rightarrow> nat option" where
  "call_of cbs i = Some (rc_finalcall (fst (cbs ! i)))"

definition ipfs_open :: "('c, 'a, 'p, 'e) ipfs_world \<Rightarrow> nat option multiset" where
  "ipfs_open w = image_mset (call_of (iw_callbacks w)) (mset_set (open_requests (iw_device w))) +
     mset (map (\<lambda>(cb, _). Some (rc_finalcall cb)) (iw_posted w))"

definition ipfs_ledger :: "('q, 'c, 'a, 'p, 'e) ipfs_system \<Rightarrow> ledger" where
  "ipfs_ledger s = \<lparr>lg_open = ipfs_open (world (is_fm s)), lg_lost = mset (is_leaked s),
     lg_called = map fst (finals (is_fm s)), lg_requested = mset (is_requested s),
     lg_stops = stopped (is_fm s)\<rparr>"

definition ipfs_world_ok :: "('c, 'a, 'p, 'e) ipfs_world \<Rightarrow> bool" where
  "ipfs_world_ok w \<longleftrightarrow> length (iw_callbacks w) = length (dv_requests (iw_device w)) \<and>
     plain_requests (iw_device w) \<and> (\<forall>(cb, ioc, r, parse, save)\<in>set (iw_posted w). \<not> parse \<and> \<not> save)"

definition ipfs_counted :: "('q, 'c, 'a, 'p, 'e) ipfs_system \<Rightarrow> bool" where
  "ipfs_counted s \<longleftrightarrow> ran (loaders (is_fm s)) \<subseteq> {IPFS_loader} \<and> ipfs_world_ok (world (is_fm s)) \<and>
     outstandingOperations (is_fm s) = int (size (ipfs_open (world (is_fm s))) + length (is_leaked s))"

text \<open>The call of the loader never throws, and opens one operation.\<close>

lemma open_requests_append:
  "st \<noteq> Completed \<Longrightarrow> open_requests (d\<lparr>dv_requests := dv_requests d @ [(r, st)]\<rparr>) =
     insert (length (dv_requests d)) (open_requests d)"
  by (auto simp: open_requests_def state_at_def nth_append)

lemma call_of_append: "i < length cbs \<Longrightarrow> call_of (cbs @ [x]) i = call_of cbs i"
  by (simp add: call_of_def nth_append)

lemma open_below: "i \<in> open_requests d \<Longrightarrow> i < length (dv_requests d)"
  by (simp add: open_requests_def)

lemma ipfs_load_opens:
  assumes "ipfs_load cid_of listen_ok start_ok wl p False False ioc cb w = (r, w')" and "ipfs_world_ok w"
  shows "\<not> isl r" "ipfs_world_ok w'" "ipfs_open w' = add_mset (Some (rc_finalcall cb)) (ipfs_open w)"
proof -
  obtain ok q where url: "parseIPFSUrl p \<lparr>ip_cid = [], ip_file = []\<rparr> = Some (ok, q)"
    using ipfs_url.returns[of p] by fastforce
  have "(\<exists>e inst0. IPFSLoader_LoadASync cid_of True listen_ok start_ok \<lparr>externalBitswap = None, externalDht = None\<rparr>
        p False False (iw_instance w) = Inr (''init'', Reject e, inst0)) \<or>
    (\<exists>tgt rq inst0. IPFSLoader_LoadASync cid_of True listen_ok start_ok \<lparr>externalBitswap = None, externalDht = None\<rparr>
        p False False (iw_instance w) = Inr (''init'', Post_start tgt Posted_find rq, inst0) \<and>
        \<not> rq_parse rq \<and> \<not> rq_save rq)"
    using url by (cases ok) (auto simp: IPFSLoader_LoadASync_def Let_def split: prod.splits sum.splits option.splits)
  then consider (reject) e inst0 where "r = Inr ''init''"
      "w' = w\<lparr>iw_instance := inst0, iw_posted := iw_posted w @ [(cb, ioc, Inl (wl e), False, False)]\<rparr>"
    | (start) rq inst0 where "r = Inr ''init''" "\<not> rq_parse rq" "\<not> rq_save rq"
      "w' = w\<lparr>iw_instance := inst0, iw_callbacks := iw_callbacks w @ [(cb, ioc)],
             iw_device := (iw_device w)\<lparr>dv_requests := dv_requests (iw_device w) @ [(rq, Posted_find)]\<rparr>\<rparr>"
    using assms(1) by (auto simp: ipfs_load_def)
  then have "\<not> isl r \<and> ipfs_world_ok w' \<and> ipfs_open w' = add_mset (Some (rc_finalcall cb)) (ipfs_open w)"
  proof cases
    case reject
    with assms(2) show ?thesis by (auto simp: ipfs_world_ok_def ipfs_open_def)
  next
    case start
    let ?d = "iw_device w" and ?n = "length (dv_requests (iw_device w))"
    have n: "?n = length (iw_callbacks w)" "?n \<notin> open_requests ?d"
      using assms(2) by (auto simp: ipfs_world_ok_def open_requests_def)
    have "image_mset (call_of (iw_callbacks w @ [(cb, ioc)])) (mset_set (open_requests ?d)) =
        image_mset (call_of (iw_callbacks w)) (mset_set (open_requests ?d))"
      using n(1) by (intro image_mset_cong call_of_append) (auto dest: open_below)
    moreover have "call_of (iw_callbacks w @ [(cb, ioc)]) ?n = Some (rc_finalcall cb)"
      by (simp add: call_of_def n(1))
    ultimately have "ipfs_open w' = add_mset (Some (rc_finalcall cb)) (ipfs_open w)"
      using n(2) by (simp add: ipfs_open_def start(4) open_requests_append)
    moreover have "ipfs_world_ok w'"
      using assms(2) start by (auto simp: ipfs_world_ok_def plain_requests_def request_at_def nth_append less_Suc_eq)
    ultimately show ?thesis using start(1) by simp
  qed
  then show "\<not> isl r" "ipfs_world_ok w'" "ipfs_open w' = add_mset (Some (rc_finalcall cb)) (ipfs_open w)" by blast+
qed

lemma ipfs_size_last:
  assumes "ipfs_counted s" and "ipfs_open (world (is_fm s)) = add_mset x N"
  shows "0 < outstandingOperations (is_fm s)"
    "outstandingOperations (is_fm s) = 1 \<longleftrightarrow> N = {#} \<and> mset (is_leaked s) = {#}"
    "outstandingOperations (is_fm s) - 1 = int (size N + length (is_leaked s))"
proof -
  have "outstandingOperations (is_fm s) = int (size (add_mset x N) + length (is_leaked s))"
    using assms by (simp add: ipfs_counted_def)
  from tally_last[OF this] show "0 < outstandingOperations (is_fm s)"
    "outstandingOperations (is_fm s) = 1 \<longleftrightarrow> N = {#} \<and> mset (is_leaked s) = {#}"
    "outstandingOperations (is_fm s) - 1 = int (size N + length (is_leaked s))" by blast+
qed

text \<open>The three kinds of events are steps of the ledger.\<close>

lemma ipfs_load_moves:
  assumes "ipfs_counted s"
    and "s' = ipfs_loads_step (ipfs_vtable cid_of listen_ok start_ok wl other) lib wd (Ipfs_load url ioc k) s"
  shows "ipfs_counted s' \<and> ledger_step (ipfs_ledger s) (ipfs_ledger s')"
proof -
  let ?vt = "ipfs_vtable cid_of listen_ok start_ok wl other" and ?fm = "is_fm s"
  obtain p where p: "components url = Inr p" using components_returns by blast
  show ?thesis
  proof (cases "loaders ?fm (up_prefix p)")
    case None
    then have "s' = s" using p assms(2) by (simp add: LoadASync_def)
    with assms(1) show ?thesis by (simp add: ledger_step.rest)
  next
    case (Some l)
    let ?cb = "\<lparr>rc_savetype = [], rc_suffix = up_extension p, rc_finalcall = k\<rparr>"
    have l: "l = IPFS_loader" using assms(1) Some by (auto simp: ipfs_counted_def ran_def)
    obtain r w where call: "ipfs_load cid_of listen_ok start_ok wl (up_base p) False False ioc ?cb (world ?fm) = (r, w)"
      by force
    have ok: "ipfs_world_ok (world ?fm)" using assms(1) by (simp add: ipfs_counted_def)
    note o = ipfs_load_opens[OF call ok]
    have s': "s' = s\<lparr>is_fm := (IncrementOutstandingOperations ?fm)\<lparr>world := w\<rparr>, is_requested := is_requested s @ [k]\<rparr>"
      using assms(2) p Some call l o(1)
      by (auto simp: LoadASync_def ipfs_vtable_def IncrementOutstandingOperations_def Let_def split: sum.splits)
    have "ledger_step (ipfs_ledger s) (ipfs_ledger s')"
      using ledger_step.begins[of "{#Some k#}" "{#}" "ipfs_ledger s"] o(3)
      by (simp add: ipfs_ledger_def s' IncrementOutstandingOperations_def)
    moreover have "ipfs_counted s'"
      using assms(1) o by (simp add: ipfs_counted_def s' IncrementOutstandingOperations_def)
    ultimately show ?thesis by blast
  qed
qed

lemma ipfs_event_moves:
  assumes "ipfs_counted s" and "s' = ipfs_loads_step vt lib wd (Ipfs_event e) s"
  shows "ipfs_counted s' \<and> ledger_step (ipfs_ledger s) (ipfs_ledger s')"
proof -
  let ?w = "world (is_fm s)" and ?d = "iw_device (world (is_fm s))"
  obtain d as where fire: "ipfs_fire lib e ?d = (d, as)" by force
  let ?w' = "?w\<lparr>iw_device := d, iw_posted := iw_posted ?w @ concat (map (posted_by wd (iw_callbacks ?w)) as)\<rparr>"
  have s': "s' = s\<lparr>is_fm := (is_fm s)\<lparr>world := ?w'\<rparr>\<rparr>" using assms(2) fire by (simp add: Let_def)
  have ok: "ipfs_world_ok ?w" using assms(1) by (simp add: ipfs_counted_def)
  then have plain: "plain_requests ?d" by (simp add: ipfs_world_ok_def)
  note f = ipfs_fire_fires[OF fire plain, unfolded fires_def]
  have "ipfs_open ?w' = ipfs_open ?w \<and> ipfs_world_ok ?w'"
  proof (cases "as = []")
    case True
    with f ok show ?thesis by (auto simp: ipfs_open_def ipfs_world_ok_def)
  next
    case False
    with f obtain i r where as: "as = [(i, Post_read r False False)]" and i: "i < length (dv_requests ?d)"
      and o: "open_requests ?d = insert i (open_requests d)" "i \<notin> open_requests d" by auto
    obtain cb ioc where cb: "iw_callbacks ?w ! i = (cb, ioc)" by force
    have "ipfs_open ?w' = ipfs_open ?w"
      using o cb by (simp add: ipfs_open_def as call_of_def)
    moreover have "ipfs_world_ok ?w'" using ok f cb by (auto simp: ipfs_world_ok_def as)
    ultimately show ?thesis by blast
  qed
  then show ?thesis using assms(1) by (simp add: s' ipfs_counted_def ipfs_ledger_def ledger_step.rest)
qed

lemma ipfs_posted_moves:
  assumes "ipfs_counted s" and "s' = ipfs_loads_step vt lib wd Ipfs_posted s"
  shows "ipfs_counted s' \<and> ledger_step (ipfs_ledger s) (ipfs_ledger s')"
proof (cases "iw_posted (world (is_fm s))")
  case Nil
  with assms show ?thesis by (simp add: ledger_step.rest)
next
  case (Cons x ps)
  obtain cb ioc r parse save where x: "x = (cb, ioc, r, parse, save)" by (metis prod_cases5)
  let ?w = "(world (is_fm s))\<lparr>iw_posted := ps\<rparr>" and ?k = "Some (rc_finalcall cb)"
  let ?fm0 = "(is_fm s)\<lparr>world := ?w\<rparr>"
  have ok: "ipfs_world_ok (world (is_fm s))" using assms(1) by (simp add: ipfs_counted_def)
  with Cons x have plain: "\<not> parse" "\<not> save" and ok': "ipfs_world_ok ?w" by (auto simp: ipfs_world_ok_def)
  have o: "ipfs_open (world (is_fm s)) = add_mset ?k (ipfs_open ?w)" by (simp add: ipfs_open_def Cons x)
  note l = ipfs_size_last[OF assms(1) o]
  have s': "s' = s\<lparr>is_fm := call_final (rc_finalcall cb) r (DecrementOutstandingOperations ioc ?fm0)\<rparr>"
    using assms(2) Cons x plain by (simp add: plain_handle_read)
  have d: "outstandingOperations (is_fm s') = outstandingOperations (is_fm s) - 1"
    "stopped (is_fm s') = stopped (is_fm s) @ (if outstandingOperations (is_fm s) = 1 then [ioc] else [])"
    "finals (is_fm s') = finals (is_fm s) @ [(rc_finalcall cb, r)]" "world (is_fm s') = ?w"
    "loaders (is_fm s') = loaders (is_fm s)"
    using l(1) by (auto simp: s' call_final_def DecrementOutstandingOperations_def stop_ioc_def Let_def)
  have "ledger_step (ipfs_ledger s) (ipfs_ledger s')"
    by (rule ledger_end[where x = ?k and M = "ipfs_open ?w" and ioc = ioc
          and b = "outstandingOperations (is_fm s) = 1"])
      (use o d l(2) in \<open>simp_all add: ipfs_ledger_def final_list_def, simp_all add: s'\<close>)
  moreover have "ipfs_counted s'"
    using assms(1) d l(3) ok' by (simp add: ipfs_counted_def) (simp add: s')
  ultimately show ?thesis by blast
qed

lemma ipfs_loads_step_moves:
  assumes "ipfs_counted s"
  shows "ipfs_counted (ipfs_loads_step (ipfs_vtable cid_of listen_ok start_ok wl other) lib wd e s)"
    "ledger_step (ipfs_ledger s)
       (ipfs_ledger (ipfs_loads_step (ipfs_vtable cid_of listen_ok start_ok wl other) lib wd e s))"
  using ipfs_load_moves[OF assms refl] ipfs_event_moves[OF assms refl] ipfs_posted_moves[OF assms refl]
  by (cases e; blast)+

interpretation ipfs_loads: refines_ledger "ipfs_loads_step (ipfs_vtable cid_of listen_ok start_ok wl other) lib wd"
  ipfs_counted ipfs_ledger
  for cid_of :: "string \<Rightarrow> 'c option" and listen_ok start_ok wl and other :: "('q, 'c, 'a, 'p, 'e) ipfs_vtable"
    and lib :: "('c, 'a, 'p) ipfs_lib" and wd
  by unfold_locales (auto intro: ipfs_loads_step_moves)

section \<open>A lost request\<close>

text \<open>Once lost, a request stays lost, and its operation stays open.\<close>

definition lost_in :: "nat \<Rightarrow> nat \<Rightarrow> ('c, 'a, 'p, 'e) ipfs_world \<Rightarrow> bool" where
  "lost_in i k w \<longleftrightarrow> i < length (dv_requests (iw_device w)) \<and> i < length (iw_callbacks w) \<and>
     lost (state_at i (iw_device w)) \<and> call_of (iw_callbacks w) i = Some k"

lemma lost_in_open: "lost_in i k w \<Longrightarrow> Some k \<in># ipfs_open w"
  unfolding lost_in_def ipfs_open_def open_requests_def lost_def by force

lemma ipfs_load_lost:
  assumes "ipfs_load cid_of listen_ok start_ok wl p parse save ioc cb w = (r, w')" and "lost_in i k w"
  shows "lost_in i k w'"
  using assms
  by (auto simp: ipfs_load_def lost_in_def state_at_def call_of_def nth_append
      split: sum.splits prod.splits ipfs_start.splits)

lemma lost_step:
  assumes "ipfs_counted s" and "lost_in i k (world (is_fm s))"
  shows "lost_in i k (world (is_fm
    (ipfs_loads_step (ipfs_vtable cid_of listen_ok start_ok wl other) lib wd e s)))"
proof (cases e)
  case (Ipfs_load url ioc k')
  let ?fm = "is_fm s"
  obtain p where p: "components url = Inr p" using components_returns by blast
  show ?thesis
  proof (cases "loaders ?fm (up_prefix p)")
    case None
    with Ipfs_load p assms(2) show ?thesis by (simp add: LoadASync_def)
  next
    case (Some l)
    have "l = IPFS_loader" using assms(1) Some by (auto simp: ipfs_counted_def ran_def)
    moreover obtain r w where call: "ipfs_load cid_of listen_ok start_ok wl (up_base p) False False ioc
        \<lparr>rc_savetype = [], rc_suffix = up_extension p, rc_finalcall = k'\<rparr> (world ?fm) = (r, w)" by force
    ultimately show ?thesis
      using Ipfs_load p Some ipfs_load_lost[OF call assms(2)]
      by (auto simp: LoadASync_def ipfs_vtable_def IncrementOutstandingOperations_def Let_def split: sum.splits)
  qed
next
  case (Ipfs_event ev)
  obtain d as where fire: "ipfs_fire lib ev (iw_device (world (is_fm s))) = (d, as)" by force
  from ipfs_fire_step[OF fire] have "i < length (dv_requests d) \<and> lost (state_at i d)"
    using assms(2) ipfs_step_lost[of lib "iw_device (world (is_fm s))" as d i] by (auto simp: lost_in_def)
  with Ipfs_event fire assms(2) show ?thesis by (simp add: lost_in_def Let_def)
next
  case Ipfs_posted
  have "\<forall>(cb, ioc, r, parse, save)\<in>set (iw_posted (world (is_fm s))). \<not> parse \<and> \<not> save"
    using assms(1) by (simp add: ipfs_counted_def ipfs_world_ok_def)
  with Ipfs_posted assms(2) show ?thesis
    by (auto simp: plain_handle_read call_final_def DecrementOutstandingOperations_def stop_ioc_def
        lost_in_def Let_def split: list.splits)
qed

lemma lost_run:
  assumes "ipfs_counted s" and "lost_in i k (world (is_fm s))"
  shows "lost_in i k (world (is_fm (fold (ipfs_loads_step (ipfs_vtable cid_of listen_ok start_ok wl other) lib wd) es s))) \<and>
    stopped (is_fm (fold (ipfs_loads_step (ipfs_vtable cid_of listen_ok start_ok wl other) lib wd) es s)) =
    stopped (is_fm s)"
  using assms
proof (induction es arbitrary: s)
  case (Cons e es)
  let ?s' = "ipfs_loads_step (ipfs_vtable cid_of listen_ok start_ok wl other) lib wd e s"
  note inv = ipfs_loads_step_moves[OF Cons.prems(1), of cid_of listen_ok start_ok wl other lib wd e]
  note lost = lost_step[OF Cons.prems, of cid_of listen_ok start_ok wl other lib wd e]
  have "stopped (is_fm ?s') = stopped (is_fm s)"
  proof (rule ccontr)
    assume "stopped (is_fm ?s') \<noteq> stopped (is_fm s)"
    with ledger_step_stops(1)[OF inv(2)] have "ipfs_open (world (is_fm ?s')) = {#}"
      by (simp add: ipfs_ledger_def)
    with lost_in_open[OF lost] show False by simp
  qed
  with Cons.IH[OF inv(1) lost] show ?case by simp
qed simp

definition ipfs_start :: "('q, 'c, 'a, 'p, 'e) ipfs_manager \<Rightarrow> ('q, 'c, 'a, 'p, 'e) ipfs_system" where
  "ipfs_start fm = \<lparr>is_fm = fm, is_leaked = [], is_requested = []\<rparr>"

definition ipfs_idle :: "('q, 'c, 'a, 'p, 'e) ipfs_manager \<Rightarrow> bool" where
  "ipfs_idle fm \<longleftrightarrow> ran (loaders fm) \<subseteq> {IPFS_loader} \<and> outstandingOperations fm = 0 \<and>
     dv_requests (iw_device (world fm)) = [] \<and> iw_callbacks (world fm) = [] \<and> iw_posted (world fm) = []"

lemma ipfs_start_counted: "ipfs_idle fm \<Longrightarrow> ipfs_counted (ipfs_start fm)"
  by (simp add: ipfs_idle_def ipfs_start_def ipfs_counted_def ipfs_world_ok_def ipfs_open_def
      plain_requests_def open_requests_def)


text \<open>
  Two loads on the shared device: both search for providers, the search of the first comes
  back empty and waits for the retry timer while the second is still searching.
\<close>

definition sample_ipfs_manager :: "(unit, nat, nat, nat, ipfs_error option) ipfs_manager" where
  "sample_ipfs_manager =
     \<lparr>loaders = [''ipfs'' \<mapsto> IPFS_loader], parsers = Map.empty, savers = Map.empty,
      outstandingOperations = 0, cacheDir = [], stopped = [], finals = [],
      world = \<lparr>iw_device = IPFSDevice_own 1 2 3, iw_instance = None, iw_callbacks = [], iw_posted = []\<rparr>\<rparr>"

abbreviation sample_ipfs_step ::
  "nat ipfs_loads_event \<Rightarrow> (unit, nat, nat, nat, ipfs_error option) ipfs_system \<Rightarrow>
   (unit, nat, nat, nat, ipfs_error option) ipfs_system" where
  "sample_ipfs_step \<equiv> ipfs_loads_step
     (ipfs_vtable (\<lambda>s. Some (length s)) True True (\<lambda>_. None) accepting_handlers) sample_lib Some"

definition two_searches :: "nat ipfs_loads_event list" where
  "two_searches = [Ipfs_load ''ipfs://Qa/f'' 0 11, Ipfs_load ''ipfs://Qb/g'' 0 12,
     Ipfs_event (Run_find 0 True), Ipfs_event (Run_find 1 True), Ipfs_event (Providers_found 0 (Inr []))]"

lemma two_searches_result:
  "let w = world (is_fm (fold sample_ipfs_step two_searches (ipfs_start sample_ipfs_manager)))
   in length (dv_requests (iw_device w)) = 2 \<and> state_at 0 (iw_device w) = Retry_waiting \<and>
      state_at 1 (iw_device w) = Finding \<and> rc_finalcall (fst (iw_callbacks w ! 0)) = 11"
  by code_simp


end
