(* ===== verification/Ssh2.thy ===== *)
theory Ssh2
  imports AsioContext UrlStringUtil
begin

text \<open>
  The interface of libssh2 as the SFTP classes use it. The library, its sessions and the
  server are a parameter of the model: a record of functions over a state \<open>'l\<close>. Pointers
  are numbers, 0 is null. Calls that only release something are recorded as actions.
  Strings hold no NUL, so \<open>c_str()\<close> changes nothing.
\<close>

record 'l ssh2 =
  ssh_init :: "'l \<Rightarrow> int \<times> 'l"
  ssh_session_init :: "'l \<Rightarrow> nat \<times> 'l"
  ssh_handshake :: "nat \<Rightarrow> 'l \<Rightarrow> int \<times> 'l"
  ssh_publickey_fromfile :: "nat \<Rightarrow> string \<Rightarrow> string \<Rightarrow> string option \<Rightarrow> 'l \<Rightarrow> int \<times> 'l"
  ssh_password :: "nat \<Rightarrow> string \<Rightarrow> string \<Rightarrow> 'l \<Rightarrow> int \<times> 'l"
  ssh_last_errno :: "nat \<Rightarrow> 'l \<Rightarrow> int"
  ssh_sftp_init :: "nat \<Rightarrow> 'l \<Rightarrow> nat \<times> 'l"
  ssh_open :: "nat \<Rightarrow> string \<Rightarrow> bool \<Rightarrow> 'l \<Rightarrow> nat \<times> 'l"
  ssh_stat :: "nat \<Rightarrow> string \<Rightarrow> 'l \<Rightarrow> (int \<times> nat) \<times> 'l"
  ssh_read :: "nat \<Rightarrow> nat \<Rightarrow> 'l \<Rightarrow> (int \<times> bytes) \<times> 'l"
  ssh_write :: "nat \<Rightarrow> bytes \<Rightarrow> 'l \<Rightarrow> int \<times> 'l"

definition LIBSSH2_ERROR_EAGAIN :: int where "LIBSSH2_ERROR_EAGAIN = - 37"

lemma EAGAIN_simps [simp]: "LIBSSH2_ERROR_EAGAIN \<noteq> 0" "\<not> 0 < LIBSSH2_ERROR_EAGAIN" "LIBSSH2_ERROR_EAGAIN < 0"
  "nat LIBSSH2_ERROR_EAGAIN = 0"
  by (simp_all add: LIBSSH2_ERROR_EAGAIN_def)

text \<open>
  The observable calls: those that release resources, each \<open>libssh2_sftp_write\<close> with the
  bytes offered and its result, each \<open>libssh2_sftp_read\<close> with its result, the
  authentication that was tried, the status callback, the save location.
\<close>

datatype ssh_io =
    Ssh_close_handle nat
  | Ssh_shutdown nat
  | Ssh_disconnect nat string
  | Ssh_free nat
  | Ssh_exit
  | Ssh_wrote bytes int
  | Ssh_got int bytes
  | Ssh_key string string "string option"
  | Ssh_pass string string
  | Ssh_opened string
  | Ssh_status bool string
  | Ssh_location string

type_synonym ssh_act = "(unit, ssh_io) act"

text \<open>
  Documented behaviour of \<open>libssh2_sftp_write\<close>: it takes at most the bytes it is offered.
\<close>

definition write_within :: "'l ssh2 \<Rightarrow> bool" where
  "write_within api \<longleftrightarrow> (\<forall>h bs l. fst (ssh_write api h bs l) \<le> int (length bs))"

text \<open>
  Documented behaviour of \<open>libssh2_sftp_read\<close>: a positive result is the number of bytes
  read, at most as many as there is room for; a negative one is a 32-bit error code.
\<close>

definition read_within :: "'l ssh2 \<Rightarrow> bool" where
  "read_within api \<longleftrightarrow> (\<forall>h n l. fst (fst (ssh_read api h n l)) \<le> int n \<and>
     - (2 ^ 31) \<le> fst (fst (ssh_read api h n l)) \<and>
     (0 < fst (fst (ssh_read api h n l)) \<longrightarrow>
        int (length (snd (fst (ssh_read api h n l)))) = fst (fst (ssh_read api h n l))))"

text \<open>The bytes the server has accepted, and those it has delivered, in order.\<close>

fun accepted_by :: "ssh_act \<Rightarrow> bytes" where
  "accepted_by (Io (Ssh_wrote bs rc)) = take (nat rc) bs"
| "accepted_by _ = []"

definition accepted :: "ssh_act list \<Rightarrow> bytes" where
  "accepted as = concat (map accepted_by as)"

fun delivered_by :: "ssh_act \<Rightarrow> bytes" where
  "delivered_by (Io (Ssh_got rc bs)) = (if 0 < rc then bs else [])"
| "delivered_by _ = []"

definition delivered :: "ssh_act list \<Rightarrow> bytes" where
  "delivered as = concat (map delivered_by as)"

lemma accepted_simps [simp]:
  "accepted [] = []" "accepted (a # as) = accepted_by a @ accepted as"
  "accepted (as @ bs) = accepted as @ accepted bs"
  by (simp_all add: accepted_def)

lemma delivered_simps [simp]:
  "delivered [] = []" "delivered (a # as) = delivered_by a @ delivered as"
  "delivered (as @ bs) = delivered as @ delivered bs"
  by (simp_all add: delivered_def)

section \<open>Host and port\<close>

text \<open>"host:port" is split at the last colon; without a colon the port is 22.\<close>

definition split_port :: "string \<Rightarrow> (string \<times> string) option" where
  "split_port sftp_host =
     (case str_rfind '':'' sftp_host of
        None \<Rightarrow> Some (sftp_host, ''22'')
      | Some colonPos \<Rightarrow> do {
          resolvePort \<leftarrow> substr sftp_host (colonPos + 1) (length sftp_host);
          resolveHost \<leftarrow> substr sftp_host 0 colonPos;
          Some (resolveHost, resolvePort) })"

lemma split_port_returns: "\<exists>r. split_port h = Some r"
proof (cases "str_rfind '':'' h")
  case (Some i)
  obtain a b where "h = a @ CHR '':'' # b" "i = length a"
    using str_rfind_char_split[OF Some] by blast
  with Some show ?thesis by (simp add: split_port_def substr_def)
qed (simp add: split_port_def)

lemma split_port_default: "CHR '':'' \<notin> set h \<Longrightarrow> split_port h = Some (h, ''22'')"
  by (simp add: split_port_def str_rfind_char_None[THEN iffD2])

lemma split_port_colon: "CHR '':'' \<notin> set p \<Longrightarrow> split_port (h @ CHR '':'' # p) = Some (h, p)"
  by (simp add: split_port_def str_rfind_char_append substr_def)

section \<open>A library for the examples\<close>

text \<open>It accepts two bytes per write and delivers two bytes "x" per read of a file of two bytes.\<close>

definition sample_ssh :: "unit ssh2" where
  "sample_ssh =
     \<lparr>ssh_init = (\<lambda>l. (0, l)), ssh_session_init = (\<lambda>l. (1, l)), ssh_handshake = (\<lambda>_ l. (0, l)),
      ssh_publickey_fromfile = (\<lambda>_ _ _ _ l. (0, l)), ssh_password = (\<lambda>_ _ _ l. (0, l)),
      ssh_last_errno = (\<lambda>_ _. 0), ssh_sftp_init = (\<lambda>_ l. (2, l)), ssh_open = (\<lambda>_ _ _ l. (3, l)),
      ssh_stat = (\<lambda>_ _ l. ((0, 2), l)),
      ssh_read = (\<lambda>_ n l. ((int (min n 2), replicate (min n 2) CHR ''x''), l)),
      ssh_write = (\<lambda>_ bs l. (int (min (length bs) 2), l))\<rparr>"

lemma sample_ssh_within: "write_within sample_ssh" "read_within sample_ssh"
  by (simp_all add: write_within_def read_within_def sample_ssh_def)

end
