(* ===== verification/SftpUpload.thy ===== *)
theory SftpUpload
  imports Ssh2
begin

text \<open>
  \<open>SFTPUploadDevice\<close> of \<open>src/SFTPSaver.cpp\<close>: the pipeline connect, handshake,
  authentication, SFTP subsystem, open, write. Every libssh2 call may answer
  \<open>LIBSSH2_ERROR_EAGAIN\<close>; then the stage waits for the socket and is run again.
\<close>

section \<open>The device\<close>

record upload_device =
  ud_host :: string
  ud_path :: string
  ud_user :: string
  ud_pass :: string
  ud_pubkeyfile :: string
  ud_privkeyfile :: string
  ud_privkeypass :: string
  ud_content :: bytes
  ud_location :: bool
  ud_uploading :: bool

definition SFTPUploadDevice ::
  "string \<Rightarrow> string \<Rightarrow> string \<Rightarrow> string \<Rightarrow> string \<Rightarrow> string \<Rightarrow> string \<Rightarrow> bytes \<Rightarrow> bool \<Rightarrow>
   upload_device" where
  "SFTPUploadDevice host path user pass pubkeyfile privkeyfile privkeypass content location =
     \<lparr>ud_host = host, ud_path = path, ud_user = user, ud_pass = pass,
      ud_pubkeyfile = pubkeyfile, ud_privkeyfile = privkeyfile, ud_privkeypass = privkeypass,
      ud_content = content, ud_location = location, ud_uploading = False\<rparr>"

text \<open>The pending wait; its arguments are the captures of the lambda.\<close>

datatype up_wait =
    Up_connect
  | Up_handshake
  | Up_auth
  | Up_create
  | Up_open nat
  | Up_write nat nat nat

record 'l upload =
  up_dev :: upload_device
  up_session :: nat
  up_lib :: 'l
  up_wait :: "up_wait option"

definition up_pause :: "up_wait \<Rightarrow> 'l upload \<Rightarrow> 'l upload" where
  "up_pause w s = s\<lparr>up_wait := Some w\<rparr>"

text \<open>\<open>DoWriteCallback\<close>: the savers always give a callback. No operation is pending any more.\<close>

definition DoWriteCallback :: "'l upload \<Rightarrow> 'l upload \<times> ssh_act list" where
  "DoWriteCallback s = (s\<lparr>up_wait := None\<rparr>, [Post_write])"

definition UploadCleanup :: "nat \<Rightarrow> nat \<Rightarrow> nat \<Rightarrow> ssh_act list" where
  "UploadCleanup session handle sftp =
     (if handle \<noteq> 0 then [Io (Ssh_close_handle handle)] else []) @
     (if sftp \<noteq> 0 then [Io (Ssh_shutdown sftp)] else []) @
     (if session \<noteq> 0 then [Io (Ssh_disconnect session ''Normal Shutdown''), Io (Ssh_free session)]
      else []) @
     [Io Ssh_exit]"

definition up_cleanup_and_call :: "nat \<Rightarrow> nat \<Rightarrow> 'l upload \<Rightarrow> 'l upload \<times> ssh_act list" where
  "up_cleanup_and_call handle sftp s =
     (let (s1, as) = DoWriteCallback s in (s1, UploadCleanup (up_session s) handle sftp @ as))"

section \<open>The stages\<close>

definition UploadWriteBlocks :: "'l ssh2 \<Rightarrow> nat \<Rightarrow> nat \<Rightarrow> nat \<Rightarrow> 'l upload \<Rightarrow> 'l upload \<times> ssh_act list" where
  "UploadWriteBlocks api sftp handle totalBytesWritten s =
     (let content = ud_content (up_dev s);
          remaining = length content - totalBytesWritten
      in if remaining = 0 then up_cleanup_and_call handle sftp s
         else let offered = take remaining (drop totalBytesWritten content);
                  (rc, l) = ssh_write api handle offered (up_lib s);
                  s1 = s\<lparr>up_lib := l\<rparr>;
                  wrote = [Io (Ssh_wrote offered rc)]
              in if rc > 0 then
                   let total = totalBytesWritten + nat rc
                   in if total \<ge> length content
                      then let (s2, as) = up_cleanup_and_call handle sftp s1 in (s2, wrote @ as)
                      else (up_pause (Up_write sftp handle total) s1, wrote)
                 else if rc = LIBSSH2_ERROR_EAGAIN
                 then (up_pause (Up_write sftp handle totalBytesWritten) s1, wrote)
                 else let (s2, as) = up_cleanup_and_call handle sftp s1 in (s2, wrote @ as))"

definition UploadOpen :: "'l ssh2 \<Rightarrow> nat \<Rightarrow> 'l upload \<Rightarrow> 'l upload \<times> ssh_act list" where
  "UploadOpen api sftp s =
     (let d = up_dev s;
          fullPath = ''.'' @ ud_path d;
          (handle, l) = ssh_open api sftp fullPath True (up_lib s);
          s1 = s\<lparr>up_lib := l\<rparr>
      in if handle = 0
         then if ssh_last_errno api (up_session s) l = LIBSSH2_ERROR_EAGAIN
              then (up_pause (Up_open sftp) s1, [])
              else DoWriteCallback s1
         else let (s2, as) = UploadWriteBlocks api sftp handle 0 s1
              in (s2, Io (Ssh_opened fullPath) #
                    (if ud_location d
                     then [Io (Ssh_location (''sftp://'' @ ud_user d @ ''@'' @ ud_host d @ ud_path d))]
                     else []) @ as))"

definition UploadCreate :: "'l ssh2 \<Rightarrow> 'l upload \<Rightarrow> 'l upload \<times> ssh_act list" where
  "UploadCreate api s =
     (let (sftp, l) = ssh_sftp_init api (up_session s) (up_lib s);
          s1 = s\<lparr>up_lib := l\<rparr>
      in if sftp = 0
         then if ssh_last_errno api (up_session s) l = LIBSSH2_ERROR_EAGAIN
              then (up_pause Up_create s1, [])
              else DoWriteCallback s1
         else UploadOpen api sftp s1)"

text \<open>The credentials it tries: a private-key file, else a public-key file, else a password.\<close>

definition upload_credentials :: "'l ssh2 \<Rightarrow> nat \<Rightarrow> upload_device \<Rightarrow> 'l \<Rightarrow> (int \<times> 'l) \<times> ssh_act" where
  "upload_credentials api session d l =
     (if ud_privkeyfile d \<noteq> []
      then (ssh_publickey_fromfile api session (ud_user d) (ud_privkeyfile d) (Some (ud_privkeypass d)) l,
            Io (Ssh_key (ud_user d) (ud_privkeyfile d) (Some (ud_privkeypass d))))
      else if ud_pubkeyfile d \<noteq> []
      then (ssh_publickey_fromfile api session (ud_user d) (ud_pubkeyfile d) (Some (ud_privkeypass d)) l,
            Io (Ssh_key (ud_user d) (ud_pubkeyfile d) (Some (ud_privkeypass d))))
      else (ssh_password api session (ud_user d) (ud_pass d) l, Io (Ssh_pass (ud_user d) (ud_pass d))))"

definition UploadAuth :: "'l ssh2 \<Rightarrow> 'l upload \<Rightarrow> 'l upload \<times> ssh_act list" where
  "UploadAuth api s =
     (let ((auth_result, l), tried) = upload_credentials api (up_session s) (up_dev s) (up_lib s);
          s1 = s\<lparr>up_lib := l\<rparr>
      in if auth_result = 0 then let (s2, as) = UploadCreate api s1 in (s2, tried # as)
         else if auth_result = LIBSSH2_ERROR_EAGAIN then (up_pause Up_auth s1, [tried])
         else let (s2, as) = DoWriteCallback s1 in (s2, tried # as))"

definition UploadHandshake :: "'l ssh2 \<Rightarrow> 'l upload \<Rightarrow> 'l upload \<times> ssh_act list" where
  "UploadHandshake api s =
     (let (rc, l) = ssh_handshake api (up_session s) (up_lib s);
          s1 = s\<lparr>up_lib := l\<rparr>
      in if rc = 0 then UploadAuth api s1
         else if rc = LIBSSH2_ERROR_EAGAIN then (up_pause Up_handshake s1, [])
         else DoWriteCallback s1)"

definition up_on_connect :: "'l ssh2 \<Rightarrow> error_code \<Rightarrow> 'l upload \<Rightarrow> 'l upload \<times> ssh_act list" where
  "up_on_connect api connect_error s =
     (if \<not> ec_failed connect_error then UploadHandshake api s else DoWriteCallback s)"

text \<open>\<open>StartSFTPUpload\<close>; a second call on the same device does nothing.\<close>

definition StartSFTPUpload ::
  "(string \<Rightarrow> string \<Rightarrow> exn + 'ep) \<Rightarrow> 'l upload \<Rightarrow> exn + ('l upload \<times> ssh_act list)" where
  "StartSFTPUpload resolve s =
     (if ud_uploading (up_dev s) then Inr (s, [])
      else let s1 = s\<lparr>up_dev := (up_dev s)\<lparr>ud_uploading := True\<rparr>\<rparr>
           in case split_port (ud_host (up_dev s)) of
                None \<Rightarrow> Inl Out_of_range
              | Some (resolveHost, resolvePort) \<Rightarrow>
                  (case resolve resolveHost resolvePort of
                     Inl _ \<Rightarrow> Inr (DoWriteCallback s1)
                   | Inr resolvedaddr \<Rightarrow> Inr (up_pause Up_connect s1, [])))"

section \<open>The run of an upload\<close>

text \<open>The connect or the wait has ended with a code and its handler runs.\<close>

datatype up_event = Up_socket error_code

definition up_handler :: "'l ssh2 \<Rightarrow> up_wait \<Rightarrow> error_code \<Rightarrow> 'l upload \<Rightarrow> 'l upload \<times> ssh_act list" where
  "up_handler api w ec s =
     (case w of
        Up_connect \<Rightarrow> up_on_connect api ec s
      | Up_handshake \<Rightarrow> if \<not> ec_failed ec then UploadHandshake api s else DoWriteCallback s
      | Up_auth \<Rightarrow> if \<not> ec_failed ec then UploadAuth api s else DoWriteCallback s
      | Up_create \<Rightarrow> if \<not> ec_failed ec then UploadCreate api s else DoWriteCallback s
      | Up_open sftp \<Rightarrow> if \<not> ec_failed ec then UploadOpen api sftp s else DoWriteCallback s
      | Up_write sftp handle tot \<Rightarrow>
          if \<not> ec_failed ec then UploadWriteBlocks api sftp handle tot s
          else up_cleanup_and_call handle sftp s)"

fun up_step :: "'l ssh2 \<Rightarrow> 'l upload \<Rightarrow> up_event \<Rightarrow> 'l upload \<times> ssh_act list" where
  "up_step api s (Up_socket ec) =
     (case up_wait s of None \<Rightarrow> (s, []) | Some w \<Rightarrow> up_handler api w ec (s\<lparr>up_wait := None\<rparr>))"

section \<open>One callback per upload\<close>

abbreviation up_live :: "'l upload \<Rightarrow> bool" where
  "up_live s \<equiv> up_wait s \<noteq> None"

lemma completions_cleanup [simp]: "completions (UploadCleanup se h f) = 0"
  by (simp add: UploadCleanup_def)

text \<open>A stage keeps the upload live and calls nobody, or ends it with one posted callback.\<close>

definition stage_once :: "('l upload \<Rightarrow> 'l upload \<times> ssh_act list) \<Rightarrow> bool" where
  "stage_once f \<longleftrightarrow> (\<forall>s s' as. f s = (s', as) \<longrightarrow> completions as = (if up_live s' then 0 else 1))"

lemma stage_onceD: "stage_once f \<Longrightarrow> f s = (s', as) \<Longrightarrow> completions as = (if up_live s' then 0 else 1)"
  unfolding stage_once_def by blast

lemma once_DoWriteCallback: "stage_once DoWriteCallback"
  by (simp add: stage_once_def DoWriteCallback_def)

lemma once_cleanup: "stage_once (up_cleanup_and_call h f)"
  by (simp add: stage_once_def up_cleanup_and_call_def DoWriteCallback_def)

lemma once_write: "stage_once (UploadWriteBlocks api sftp h tot)"
  by (auto simp: stage_once_def UploadWriteBlocks_def up_cleanup_and_call_def DoWriteCallback_def
      up_pause_def Let_def split: if_splits prod.splits)

lemma once_open: "stage_once (UploadOpen api sftp)"
  unfolding stage_once_def UploadOpen_def Let_def
  by (auto simp: up_pause_def DoWriteCallback_def dest: stage_onceD[OF once_write]
      split: if_splits prod.splits)

lemma once_create: "stage_once (UploadCreate api)"
  unfolding stage_once_def UploadCreate_def Let_def
  by (auto simp: up_pause_def DoWriteCallback_def dest: stage_onceD[OF once_open]
      split: if_splits prod.splits)

lemma once_auth: "stage_once (UploadAuth api)"
  unfolding stage_once_def UploadAuth_def upload_credentials_def Let_def
  by (auto simp: up_pause_def DoWriteCallback_def dest: stage_onceD[OF once_create]
      split: if_splits prod.splits)

lemma once_handshake: "stage_once (UploadHandshake api)"
  unfolding stage_once_def UploadHandshake_def Let_def
  by (auto simp: up_pause_def DoWriteCallback_def dest: stage_onceD[OF once_auth]
      split: if_splits prod.splits)

lemmas stages_once = once_DoWriteCallback once_cleanup once_write once_open once_create once_auth
  once_handshake

lemma once_handler: "stage_once (up_handler api w ec)"
  unfolding stage_once_def up_handler_def up_on_connect_def
  by (auto dest: stages_once[THEN stage_onceD] split: up_wait.splits if_splits)

interpretation up: one_shot "up_step api" "\<lambda>_. True" up_live for api :: "'l ssh2"
proof unfold_locales
  fix s :: "'l upload" and e s' as
  show True by simp
  show "up_live s \<Longrightarrow> up_step api s e = (s', as) \<Longrightarrow> completions as = (if up_live s' then 0 else 1)"
    by (cases e) (auto dest: stage_onceD[OF once_handler] split: option.splits)
  show "\<not> up_live s \<Longrightarrow> up_step api s e = (s', as) \<Longrightarrow> \<not> up_live s' \<and> completions as = 0"
    by (cases e) (auto split: option.splits)
qed

lemma StartSFTPUpload_once:
  assumes "StartSFTPUpload resolve s0 = Inr (s, as)" and "\<not> ud_uploading (up_dev s0)"
  shows "completions as = (if up_live s then 0 else 1)"
  using assms
  by (auto simp: StartSFTPUpload_def DoWriteCallback_def up_pause_def Let_def
      split: option.splits sum.splits prod.splits)

section \<open>What reaches the server\<close>

fun is_opened :: "ssh_act \<Rightarrow> bool" where
  "is_opened (Io (Ssh_opened p)) = True"
| "is_opened _ = False"

fun good_write :: "ssh_act \<Rightarrow> bool" where
  "good_write (Io (Ssh_wrote bs rc)) = (0 < rc \<or> rc = LIBSSH2_ERROR_EAGAIN)"
| "good_write _ = True"

definition opened :: "ssh_act list \<Rightarrow> bool" where
  "opened as = list_ex is_opened as"

definition frees :: "nat \<Rightarrow> ssh_act list \<Rightarrow> nat" where
  "frees session as = length (filter (\<lambda>a. a = Io (Ssh_free session)) as)"

lemma opened_frees_simps [simp]:
  "\<not> opened []" "opened (a # as) \<longleftrightarrow> is_opened a \<or> opened as" "opened (as @ bs) \<longleftrightarrow> opened as \<or> opened bs"
  "frees se [] = 0" "frees se (a # as) = (if a = Io (Ssh_free se) then 1 else 0) + frees se as"
  "frees se (as @ bs) = frees se as + frees se bs"
  by (simp_all add: opened_def frees_def)

lemma cleanup_history [simp]:
  "accepted (UploadCleanup se h f) = []" "\<not> opened (UploadCleanup se h f)"
  "list_all good_write (UploadCleanup se h f)" "frees se (UploadCleanup se h f) = (if se = 0 then 0 else 1)"
  by (simp_all add: UploadCleanup_def)

text \<open>
  The history of an upload: before the file is open nothing has been accepted or released;
  while it is written the server has a prefix of the content of the length the lambda has
  captured; at the end the session has been freed exactly if the file had been opened.
  \<open>ok\<close> tells that no socket wait fails.
\<close>

definition up_before :: "bytes \<Rightarrow> nat \<Rightarrow> 'l upload \<Rightarrow> ssh_act list \<Rightarrow> bool" where
  "up_before content se s h \<longleftrightarrow> ud_content (up_dev s) = content \<and> up_session s = se \<and>
     \<not> opened h \<and> accepted h = [] \<and> frees se h = 0"

definition up_writing :: "bytes \<Rightarrow> nat \<Rightarrow> nat \<Rightarrow> 'l upload \<Rightarrow> ssh_act list \<Rightarrow> bool" where
  "up_writing content se tot s h \<longleftrightarrow> ud_content (up_dev s) = content \<and> up_session s = se \<and>
     opened h \<and> accepted h = take tot content \<and> tot \<le> length content \<and> frees se h = 0"

definition up_ended :: "bool \<Rightarrow> bytes \<Rightarrow> nat \<Rightarrow> 'l upload \<Rightarrow> ssh_act list \<Rightarrow> bool" where
  "up_ended ok content se s h \<longleftrightarrow> prefix (accepted h) content \<and>
     frees se h = (if opened h then 1 else 0) \<and>
     (opened h \<and> ok \<and> list_all good_write h \<longrightarrow> accepted h = content)"

definition up_inv :: "bool \<Rightarrow> bytes \<Rightarrow> nat \<Rightarrow> 'l upload \<Rightarrow> ssh_act list \<Rightarrow> bool" where
  "up_inv ok content se s h \<longleftrightarrow>
     (case up_wait s of
        None \<Rightarrow> up_ended ok content se s h
      | Some (Up_write f hdl tot) \<Rightarrow> up_writing content se tot s h
      | Some _ \<Rightarrow> up_before content se s h)"

lemmas up_inv_defs = up_inv_def up_ended_def up_writing_def up_before_def

lemma up_inv_DoWriteCallback:
  "up_before content se s h \<Longrightarrow> DoWriteCallback s = (s', as) \<Longrightarrow> up_inv ok content se s' (h @ as)"
  by (auto simp: DoWriteCallback_def up_inv_defs)

lemma up_inv_cleanup:
  assumes "up_writing content se tot s h" and "up_cleanup_and_call hdl f s = (s', as)" and "se \<noteq> 0"
    and "ok \<Longrightarrow> list_all good_write h \<Longrightarrow> tot = length content"
  shows "up_inv ok content se s' (h @ as)"
  using assms by (auto simp: up_cleanup_and_call_def DoWriteCallback_def up_inv_defs take_is_prefix)

lemma take_more: "n \<le> length xs - i \<Longrightarrow>
   take i xs @ take n (take (length xs - i) (drop i xs)) = take (i + n) xs"
  by (simp add: take_add min_def)

lemma up_inv_write:
  assumes "write_within api" and "up_writing content se tot s h" and "se \<noteq> 0"
    and "UploadWriteBlocks api f hdl tot s = (s', as)"
  shows "up_inv ok content se s' (h @ as)"
proof (cases "length content - tot = 0")
  case True
  with assms show ?thesis
    by (intro up_inv_cleanup[OF assms(2)]) (auto simp: UploadWriteBlocks_def up_writing_def)
next
  case False
  let ?offered = "take (length content - tot) (drop tot content)"
  obtain rc l where w: "ssh_write api hdl ?offered (up_lib s) = (rc, l)" by force
  have le: "rc \<le> int (length ?offered)"
    using assms(1) w unfolding write_within_def by (metis fst_conv)
  have content: "ud_content (up_dev s) = content" using assms(2) by (simp add: up_writing_def)
  let ?s1 = "s\<lparr>up_lib := l\<rparr>" and ?h = "h @ [Io (Ssh_wrote ?offered rc)]"
  have n: "nat rc \<le> length content - tot" using le by auto
  have now: "up_writing content se (tot + nat rc) ?s1 ?h"
    using assms(2) take_more[OF n] n by (auto simp: up_writing_def)
  note eq = assms(4)[unfolded UploadWriteBlocks_def content Let_def w, simplified False if_False, simplified]
  consider (more) "0 < rc" "tot + nat rc < length content" | (complete) "0 < rc" "length content \<le> tot + nat rc"
    | (again) "rc = LIBSSH2_ERROR_EAGAIN" | (failed) "rc \<le> 0" "rc \<noteq> LIBSSH2_ERROR_EAGAIN"
    by linarith
  then show ?thesis
  proof cases
    case more
    with eq now show ?thesis by (auto simp: up_pause_def up_inv_defs)
  next
    case complete
    with eq obtain bs where bs: "up_cleanup_and_call hdl f ?s1 = (s', bs)" "as = Io (Ssh_wrote ?offered rc) # bs"
      by (auto split: prod.splits)
    from up_inv_cleanup[OF now bs(1) assms(3)] bs(2) complete n show ?thesis by (simp add: up_writing_def)
  next
    case again
    with eq now show ?thesis by (auto simp: up_pause_def up_inv_defs)
  next
    case failed
    with eq obtain bs where bs: "up_cleanup_and_call hdl f ?s1 = (s', bs)" "as = Io (Ssh_wrote ?offered rc) # bs"
      by (auto split: prod.splits)
    from up_inv_cleanup[OF now bs(1) assms(3)] bs(2) failed show ?thesis by (simp add: up_writing_def)
  qed
qed

lemma up_inv_open:
  assumes "write_within api" and "up_before content se s h" and "se \<noteq> 0"
    and "UploadOpen api f s = (s', as)"
  shows "up_inv ok content se s' (h @ as)"
proof -
  let ?p = "''.'' @ ud_path (up_dev s)"
  obtain hdl l where o: "ssh_open api f ?p True (up_lib s) = (hdl, l)" by force
  let ?s1 = "s\<lparr>up_lib := l\<rparr>"
  have before: "up_before content se ?s1 h" using assms(2) by (simp add: up_before_def)
  show ?thesis
  proof (cases "hdl = 0")
    case True
    show ?thesis
    proof (cases "ssh_last_errno api (up_session s) l = LIBSSH2_ERROR_EAGAIN")
      case True
      with \<open>hdl = 0\<close> o assms(4) before show ?thesis
        by (auto simp: UploadOpen_def Let_def up_pause_def up_inv_defs)
    next
      case False
      with \<open>hdl = 0\<close> o assms(4) have "DoWriteCallback ?s1 = (s', as)"
        by (simp add: UploadOpen_def Let_def)
      from up_inv_DoWriteCallback[OF before this] show ?thesis .
    qed
  next
    case False
    let ?loc = "if ud_location (up_dev s)
      then [Io (Ssh_location (''sftp://'' @ ud_user (up_dev s) @ ''@'' @ ud_host (up_dev s) @ ud_path (up_dev s)))]
      else [] :: ssh_act list"
    obtain bs where w: "UploadWriteBlocks api f hdl 0 ?s1 = (s', bs)"
        and as: "as = Io (Ssh_opened ?p) # ?loc @ bs"
      using False o assms(4) by (auto simp: UploadOpen_def Let_def split: prod.splits)
    have "up_writing content se 0 ?s1 (h @ Io (Ssh_opened ?p) # ?loc)"
      using before by (simp add: up_writing_def up_before_def)
    from up_inv_write[OF assms(1) this assms(3) w] as show ?thesis by simp
  qed
qed

lemma up_inv_create:
  assumes "write_within api" and "up_before content se s h" and "se \<noteq> 0"
    and "UploadCreate api s = (s', as)"
  shows "up_inv ok content se s' (h @ as)"
proof -
  obtain f l where c: "ssh_sftp_init api (up_session s) (up_lib s) = (f, l)" by force
  have before: "up_before content se (s\<lparr>up_lib := l\<rparr>) h" using assms(2) by (simp add: up_before_def)
  with c assms(4) up_inv_open[OF assms(1) before assms(3)] up_inv_DoWriteCallback[OF before]
  show ?thesis
    by (auto simp: UploadCreate_def Let_def up_pause_def up_inv_def up_before_def split: if_splits)
qed

lemma up_inv_auth:
  assumes "write_within api" and "up_before content se s h" and "se \<noteq> 0"
    and "UploadAuth api s = (s', as)"
  shows "up_inv ok content se s' (h @ as)"
proof -
  obtain r l a where c: "upload_credentials api (up_session s) (up_dev s) (up_lib s) = ((r, l), a)"
    by (metis prod.collapse)
  have "accepted_by a = [] \<and> \<not> is_opened a \<and> a \<noteq> Io (Ssh_free se)"
    using c by (auto simp: upload_credentials_def split: if_splits)
  then have before: "up_before content se (s\<lparr>up_lib := l\<rparr>) (h @ [a])"
    using assms(2) by (simp add: up_before_def)
  show ?thesis
  proof (cases "r = 0")
    case True
    with c assms(4) obtain bs where "UploadCreate api (s\<lparr>up_lib := l\<rparr>) = (s', bs)" "as = a # bs"
      by (auto simp: UploadAuth_def Let_def split: prod.splits)
    with up_inv_create[OF assms(1) before assms(3)] show ?thesis by fastforce
  next
    case False
    show ?thesis
    proof (cases "r = LIBSSH2_ERROR_EAGAIN")
      case True
      with c assms(4) before show ?thesis
        by (auto simp: UploadAuth_def Let_def up_pause_def up_inv_def up_before_def)
    next
      case f: False
      with c False assms(4) obtain bs where "DoWriteCallback (s\<lparr>up_lib := l\<rparr>) = (s', bs)" "as = a # bs"
        by (auto simp: UploadAuth_def Let_def split: prod.splits)
      with up_inv_DoWriteCallback[OF before] show ?thesis by fastforce
    qed
  qed
qed

lemma up_inv_handshake:
  assumes "write_within api" and "up_before content se s h" and "se \<noteq> 0"
    and "UploadHandshake api s = (s', as)"
  shows "up_inv ok content se s' (h @ as)"
proof -
  obtain r l where c: "ssh_handshake api (up_session s) (up_lib s) = (r, l)" by force
  have before: "up_before content se (s\<lparr>up_lib := l\<rparr>) h" using assms(2) by (simp add: up_before_def)
  with c assms(4) up_inv_auth[OF assms(1) before assms(3)] up_inv_DoWriteCallback[OF before]
  show ?thesis
    by (auto simp: UploadHandshake_def Let_def up_pause_def up_inv_def up_before_def split: if_splits)
qed

lemma up_inv_step:
  assumes "write_within api" and "se \<noteq> 0" and "up_inv ok content se s h"
    and "ok \<longrightarrow> e = Up_socket ec_success" and "up_step api s e = (s', as)"
  shows "up_inv ok content se s' (h @ as)"
proof (cases "up_wait s")
  case None
  with assms(3,5) show ?thesis by (cases e) auto
next
  case (Some w)
  obtain ec where e: "e = Up_socket ec" by (cases e) auto
  let ?s = "s\<lparr>up_wait := None\<rparr>"
  from assms(5) Some e have handler: "up_handler api w ec ?s = (s', as)" by simp
  have ok: "ok \<Longrightarrow> \<not> ec_failed ec" using assms(4) e by simp
  show ?thesis
  proof (cases "\<exists>f hdl tot. w = Up_write f hdl tot")
    case True
    then obtain f hdl tot where w: "w = Up_write f hdl tot" by blast
    have wr: "up_writing content se tot ?s h"
      using assms(3) Some w by (simp add: up_inv_def up_writing_def)
    show ?thesis
    proof (cases "ec_failed ec")
      case True
      with handler w have "up_cleanup_and_call hdl f ?s = (s', as)" by (simp add: up_handler_def)
      from up_inv_cleanup[OF wr this assms(2)] ok True show ?thesis by blast
    next
      case False
      with handler w have "UploadWriteBlocks api f hdl tot ?s = (s', as)" by (simp add: up_handler_def)
      from up_inv_write[OF assms(1) wr assms(2) this] show ?thesis .
    qed
  next
    case False
    have bf: "up_before content se ?s h"
      using assms(3) Some False by (cases w) (auto simp: up_inv_def up_before_def)
    show ?thesis
    proof (cases "ec_failed ec")
      case True
      with handler False have "DoWriteCallback ?s = (s', as)"
        by (cases w) (auto simp: up_handler_def up_on_connect_def)
      from up_inv_DoWriteCallback[OF bf this] show ?thesis .
    next
      case f: False
      from handler f False up_inv_handshake[OF assms(1) bf assms(2)] up_inv_auth[OF assms(1) bf assms(2)]
        up_inv_create[OF assms(1) bf assms(2)] up_inv_open[OF assms(1) bf assms(2)]
      show ?thesis by (cases w) (auto simp: up_handler_def up_on_connect_def)
    qed
  qed
qed

text \<open>
  C11: as long as libssh2 accepts at most what it is offered, the server receives at every
  moment a prefix of the file in order, however the writes are split or have to be
  retried; the whole file when the upload has ended, the remote file was opened, no wait
  failed and no write was refused. The session is freed exactly once if the file was
  opened, and never if the upload failed before that.
\<close>

theorem upload_content_and_release:
  assumes "StartSFTPUpload resolve s0 = Inr (s, as0)" and "dev_run (up_step api) s es = (s', as)"
    and "write_within api" and "up_session s0 \<noteq> 0" and "\<not> ud_uploading (up_dev s0)"
  shows "prefix (accepted (as0 @ as)) (ud_content (up_dev s0)) \<and>
    (up_wait s' = None \<longrightarrow> frees (up_session s0) (as0 @ as) = (if opened (as0 @ as) then 1 else 0)) \<and>
    (up_wait s' = None \<and> opened (as0 @ as) \<and> set es \<subseteq> {Up_socket ec_success} \<and>
       list_all good_write as \<longrightarrow> accepted (as0 @ as) = ud_content (up_dev s0))"
proof -
  let ?ok = "set es \<subseteq> {Up_socket ec_success}"
  have start: "up_inv ?ok (ud_content (up_dev s0)) (up_session s0) s as0" and g: "list_all good_write as0"
    using assms(1,5)
    by (auto simp: StartSFTPUpload_def DoWriteCallback_def up_pause_def up_inv_defs Let_def
        split: option.splits sum.splits prod.splits)
  have "\<forall>e\<in>set es. ?ok \<longrightarrow> e = Up_socket ec_success" by auto
  from dev_run_history[where I = "up_inv ?ok (ud_content (up_dev s0)) (up_session s0)"
      and Q = "\<lambda>e. ?ok \<longrightarrow> e = Up_socket ec_success", OF assms(2) start this] up_inv_step assms(3,4)
  have "up_inv ?ok (ud_content (up_dev s0)) (up_session s0) s' (as0 @ as)" by blast
  with g show ?thesis
    by (auto simp: up_inv_defs take_is_prefix split: option.splits up_wait.splits)
qed

definition sample_upload :: "unit upload" where
  "sample_upload =
     \<lparr>up_dev = SFTPUploadDevice ''host:2222'' ''/d/f'' ''user'' ''pw'' [] [] [] ''abc'' True,
      up_session = 1, up_lib = (), up_wait = None\<rparr>"

lemma upload_content_and_release_witness:
  "accepted (snd (dev_run (up_step sample_ssh) (up_pause Up_connect
       (sample_upload\<lparr>up_dev := (up_dev sample_upload)\<lparr>ud_uploading := True\<rparr>\<rparr>))
     [Up_socket ec_success, Up_socket ec_success])) = ''abc''"
proof -
  let ?s = "up_pause Up_connect (sample_upload\<lparr>up_dev := (up_dev sample_upload)\<lparr>ud_uploading := True\<rparr>\<rparr>)"
  let ?es = "[Up_socket ec_success, Up_socket ec_success]"
  let ?r = "dev_run (up_step sample_ssh) ?s ?es"
  note defs = sample_upload_def SFTPUploadDevice_def
  have start: "StartSFTPUpload (\<lambda>h p. Inr ()) sample_upload = Inr (?s, [])"
    by (simp add: StartSFTPUpload_def split_port_def substr_def defs Let_def)
  have "up_wait (fst ?r) = None \<and> opened (snd ?r) \<and> list_all good_write (snd ?r)"
    by (simp add: defs sample_ssh_def up_pause_def up_handler_def up_on_connect_def UploadHandshake_def
        UploadAuth_def upload_credentials_def UploadCreate_def UploadOpen_def UploadWriteBlocks_def
        up_cleanup_and_call_def DoWriteCallback_def Let_def)
  with upload_content_and_release[OF start prod.collapse[symmetric, of ?r] sample_ssh_within(1)]
  show ?thesis by (simp add: defs)
qed

text \<open>
  C25: an upload that \<open>StartSFTPUpload\<close> has started posts its callback exactly once when it
  has ended, on every error path of the pipeline, and not at all before.
\<close>

theorem upload_completes_once:
  assumes "StartSFTPUpload resolve s0 = Inr (s, as0)" and "\<not> ud_uploading (up_dev s0)"
    and "dev_run (up_step api) s es = (s', as)"
  shows "completions (as0 @ as) = (if up_wait s' = None then 1 else 0)"
  using up.started_once[OF TrueI StartSFTPUpload_once[OF assms(1,2)] assms(3)] by simp

lemma upload_completes_once_witness:
  "completions ([Post_write] @ snd (dev_run (up_step sample_ssh)
     (sample_upload\<lparr>up_dev := (up_dev sample_upload)\<lparr>ud_uploading := True\<rparr>\<rparr>) [Up_socket ec_success])) = 1"
proof -
  let ?s = "sample_upload\<lparr>up_dev := (up_dev sample_upload)\<lparr>ud_uploading := True\<rparr>\<rparr>"
  let ?r = "dev_run (up_step sample_ssh) ?s [Up_socket ec_success]"
  have start: "StartSFTPUpload (\<lambda>h p. Inl System_error :: exn + unit) sample_upload = Inr (?s, [Post_write])"
    by (simp add: StartSFTPUpload_def split_port_def substr_def sample_upload_def SFTPUploadDevice_def
        DoWriteCallback_def Let_def)
  from upload_completes_once[OF start _ prod.collapse[symmetric, of ?r]] show ?thesis
    by (simp add: sample_upload_def SFTPUploadDevice_def)
qed

end
