(* ===== verification/SftpSaver.thy ===== *)
theory SftpSaver
  imports SftpUpload
begin

text \<open>
  \<open>SFTPSaver\<close> of \<open>src/SFTPSaver.cpp\<close>: the synchronous \<open>SaveFile\<close>, and \<open>SaveASync\<close>,
  which starts one upload device per file and calls back when the counter shared by their
  callbacks has come down to zero.
\<close>

section \<open>SaveFile\<close>

definition sync_close :: "nat \<Rightarrow> nat \<Rightarrow> nat \<Rightarrow> string \<Rightarrow> ssh_act list" where
  "sync_close session handle sftp reason =
     [Io (Ssh_close_handle handle), Io (Ssh_shutdown sftp), Io (Ssh_disconnect session reason),
      Io (Ssh_free session), Io Ssh_exit]"

text \<open>
  The loop \<open>while ( totalWritten < writeSize )\<close>. It need not end: a write that returns 0
  is tried again for ever, which is the value \<open>None\<close>.
\<close>

partial_function (option) sync_write ::
  "'l ssh2 \<Rightarrow> nat \<Rightarrow> nat \<Rightarrow> nat \<Rightarrow> bytes \<Rightarrow> nat \<Rightarrow> 'l \<Rightarrow> ((exn + unit) \<times> 'l \<times> ssh_act list) option" where
  "sync_write api session sftp handle content totalWritten l =
     (if totalWritten < length content then
        let offered = drop totalWritten content;
            written = fst (ssh_write api handle offered l);
            l1 = snd (ssh_write api handle offered l);
            wrote = Io (Ssh_wrote offered written)
        in if written < 0
           then Some (Inl (Runtime_error ''SFTP write failed''), l1,
                      wrote # sync_close session handle sftp ''Write failed'')
           else do {
             (r, l2, as) \<leftarrow> sync_write api session sftp handle content (totalWritten + nat written) l1;
             Some (r, l2, wrote # as) }
      else Some (Inr (), l, []))"

definition SFTPSaver_SaveFile ::
  "'l ssh2 \<Rightarrow> (string \<Rightarrow> string \<Rightarrow> exn + 'ep) \<Rightarrow> ('ep \<Rightarrow> exn + unit) \<Rightarrow> string \<Rightarrow> bytes option \<Rightarrow> 'l \<Rightarrow>
   ((exn + unit) \<times> 'l \<times> ssh_act list) option" where
  "SFTPSaver_SaveFile api resolve connect filename data l =
     (case data of
        None \<Rightarrow> Some (Inl (Range_error ''Cannot save with null data''), l, [])
      | Some content \<Rightarrow>
     (case parseSFTPUrl filename \<lparr>sp_host = [], sp_path = [], sp_user = [], sp_pass = [],
             sp_publickey_file = [], sp_privatekey_file = [], sp_privatekey_pass = []\<rparr> of
        None \<Rightarrow> Some (Inl Out_of_range, l, [])
      | Some (_, p) \<Rightarrow>
          let (rc, l1) = ssh_init api l
          in if rc \<noteq> 0 then Some (Inl (Runtime_error ''libssh2_init failed''), l1, [])
             else
     (case split_port (sp_host p) of
        None \<Rightarrow> Some (Inl Out_of_range, l1, [])
      | Some (resolveHost, resolvePort) \<Rightarrow>
     (case resolve resolveHost resolvePort of
        Inl e \<Rightarrow> Some (Inl e, l1, [])
      | Inr endpoints \<Rightarrow>
     (case connect endpoints of
        Inl e \<Rightarrow> Some (Inl e, l1, [])
      | Inr _ \<Rightarrow>
          let (session, l2) = ssh_session_init api l1;
              (rc, l3) = ssh_handshake api session l2
          in if rc \<noteq> 0
             then Some (Inl (Runtime_error ''SFTP handshake failed''), l3, [Io (Ssh_free session), Io Ssh_exit])
             else
          let ((auth_result, l4), tried) =
                (if sp_privatekey_file p \<noteq> []
                 then (ssh_publickey_fromfile api session (sp_user p) (sp_privatekey_file p)
                         (Some (sp_privatekey_pass p)) l3,
                       Io (Ssh_key (sp_user p) (sp_privatekey_file p) (Some (sp_privatekey_pass p))))
                 else if sp_publickey_file p \<noteq> []
                 then (ssh_publickey_fromfile api session (sp_user p) (sp_publickey_file p)
                         (Some (sp_privatekey_pass p)) l3,
                       Io (Ssh_key (sp_user p) (sp_publickey_file p) (Some (sp_privatekey_pass p))))
                 else (ssh_password api session (sp_user p) (sp_pass p) l3,
                       Io (Ssh_pass (sp_user p) (sp_pass p))))
          in if auth_result \<noteq> 0
             then Some (Inl (Runtime_error ''SFTP authentication failed''), l4,
                    [tried, Io (Ssh_disconnect session ''Auth failed''), Io (Ssh_free session), Io Ssh_exit])
             else
          let (sftp, l5) = ssh_sftp_init api session l4
          in if sftp = 0
             then Some (Inl (Runtime_error ''SFTP init failed''), l5,
                    [tried, Io (Ssh_disconnect session ''SFTP init failed''), Io (Ssh_free session), Io Ssh_exit])
             else
          let fullPath = ''.'' @ sp_path p;
              (handle, l6) = ssh_open api sftp fullPath True l5
          in if handle = 0
             then Some (Inl (Runtime_error (''SFTP file open for write failed: '' @ sp_path p)), l6,
                    [tried, Io (Ssh_shutdown sftp), Io (Ssh_disconnect session ''File open failed''),
                     Io (Ssh_free session), Io Ssh_exit])
             else do {
               (r, l7, as) \<leftarrow> sync_write api session sftp handle content 0 l6;
               Some (r, l7, [tried, Io (Ssh_opened fullPath)] @ as @
                       (if isl r then [] else sync_close session handle sftp ''Normal Shutdown'')) })))))"

section \<open>SaveASync\<close>

record 'l sftp_save =
  sv_lib :: 'l
  sv_uploads :: "'l upload list"
  sv_remaining :: nat
  sv_posted :: nat

definition full_file_path :: "string \<Rightarrow> string \<Rightarrow> string" where
  "full_file_path sftp_path name =
     (if sftp_path \<noteq> [] \<and> last sftp_path \<noteq> CHR ''/'' then sftp_path @ ''/'' @ name else sftp_path @ name)"

text \<open>The posted callbacks of the uploads become posted decrements of the shared counter.\<close>

definition sv_add :: "'l upload \<Rightarrow> ssh_act list \<Rightarrow> 'l sftp_save \<Rightarrow> 'l sftp_save" where
  "sv_add u as sv =
     sv\<lparr>sv_lib := up_lib u, sv_uploads := sv_uploads sv @ [u], sv_posted := sv_posted sv + completions as\<rparr>"

fun sftp_save_loop ::
  "'l ssh2 \<Rightarrow> (string \<Rightarrow> string \<Rightarrow> exn + 'ep) \<Rightarrow> sftp_parts \<Rightarrow> bool \<Rightarrow> (string \<times> bytes) list \<Rightarrow>
   'l sftp_save \<Rightarrow> exn + 'l sftp_save" where
  "sftp_save_loop api resolve p save_location [] sv = Inr sv"
| "sftp_save_loop api resolve p save_location ((name, content) # files) sv =
     (let (session, l) = ssh_session_init api (sv_lib sv);
          device = SFTPUploadDevice (sp_host p) (full_file_path (sp_path p) name) (sp_user p) (sp_pass p)
            (sp_publickey_file p) (sp_privatekey_file p) (sp_privatekey_pass p) content save_location
      in case StartSFTPUpload resolve
                \<lparr>up_dev = device, up_session = session, up_lib = l, up_wait = None\<rparr> of
           Inl e \<Rightarrow> Inl e
         | Inr (u, as) \<Rightarrow> sftp_save_loop api resolve p save_location files (sv_add u as sv))"

definition SFTPSaver_SaveASync ::
  "'l ssh2 \<Rightarrow> (string \<Rightarrow> string \<Rightarrow> exn + 'ep) \<Rightarrow> string \<Rightarrow> 'e result_type \<Rightarrow> string \<Rightarrow> bool \<Rightarrow> 'l \<Rightarrow>
   exn + ('l sftp_save \<times> ssh_act list)" where
  "SFTPSaver_SaveASync api resolve filename data sfx save_location l =
     (let rejected = Inr (\<lparr>sv_lib = l, sv_uploads = [], sv_remaining = 0, sv_posted = 0\<rparr>, [Post_write])
      in case data of
           Inl _ \<Rightarrow> rejected
         | Inr None \<Rightarrow> rejected
         | Inr (Some (filePaths, fileContents)) \<Rightarrow>
             if filePaths = [] then rejected
             else if length filePaths \<noteq> length fileContents then rejected
             else
               (case parseSFTPUrl filename \<lparr>sp_host = [], sp_path = [], sp_user = [], sp_pass = [],
                       sp_publickey_file = [], sp_privatekey_file = [], sp_privatekey_pass = []\<rparr> of
                  None \<Rightarrow> Inl Out_of_range
                | Some (_, p) \<Rightarrow>
                    (case sftp_save_loop api resolve p save_location (zip filePaths fileContents)
                            \<lparr>sv_lib = l, sv_uploads = [], sv_remaining = length filePaths, sv_posted = 0\<rparr> of
                       Inl e \<Rightarrow> Inl e
                     | Inr sv \<Rightarrow> Inr (sv, []))))"

text \<open>A socket event of upload \<open>k\<close>, or one of the posted upload callbacks.\<close>

datatype sv_event = Sv_socket nat error_code | Sv_callback

fun sv_step :: "'l ssh2 \<Rightarrow> 'l sftp_save \<Rightarrow> sv_event \<Rightarrow> 'l sftp_save \<times> ssh_act list" where
  "sv_step api sv (Sv_socket k ec) =
     (if k < length (sv_uploads sv) then
        let (u, as) = up_step api ((sv_uploads sv ! k)\<lparr>up_lib := sv_lib sv\<rparr>) (Up_socket ec)
        in (sv\<lparr>sv_lib := up_lib u, sv_uploads := (sv_uploads sv)[k := u],
               sv_posted := sv_posted sv + completions as\<rparr>,
            filter (\<lambda>a. \<not> completion a) as)
      else (sv, []))"
| "sv_step api sv Sv_callback =
     (if sv_posted sv = 0 then (sv, [])
      else let sv1 = sv\<lparr>sv_posted := sv_posted sv - 1, sv_remaining := sv_remaining sv - 1\<rparr>
           in (sv1, if sv_remaining sv1 \<le> 0 then [Handle_write] else []))"

section \<open>One callback per save\<close>

definition live_uploads :: "'l upload list \<Rightarrow> nat" where
  "live_uploads us = sum_list (map (\<lambda>u. if up_live u then 1 else 0) us)"

text \<open>The counter counts the uploads still running and the callbacks not yet run.\<close>

definition sv_wf :: "'l sftp_save \<Rightarrow> bool" where
  "sv_wf sv \<longleftrightarrow> sv_remaining sv = live_uploads (sv_uploads sv) + sv_posted sv"

abbreviation sv_live :: "'l sftp_save \<Rightarrow> bool" where
  "sv_live sv \<equiv> 0 < sv_remaining sv"

lemma live_uploads_simps [simp]:
  "live_uploads [] = 0" "live_uploads (us @ [u]) = live_uploads us + (if up_live u then 1 else 0)"
  by (simp_all add: live_uploads_def)

lemma live_uploads_update:
  assumes "k < length us"
  shows "live_uploads (us[k := u]) + (if up_live (us ! k) then 1 else 0) =
    live_uploads us + (if up_live u then 1 else 0)"
proof -
  let ?f = "\<lambda>u. if up_live u then 1 else (0::nat)"
  have "sum_list (map ?f us) = sum_list (map ?f (take k us)) + ?f (us ! k) + sum_list (map ?f (drop (Suc k) us))"
    by (subst (1) id_take_nth_drop[OF assms]) simp
  moreover have "sum_list (map ?f (us[k := u])) =
      sum_list (map ?f (take k us)) + ?f u + sum_list (map ?f (drop (Suc k) us))"
    using assms by (simp add: upd_conv_take_nth_drop)
  ultimately show ?thesis by (simp add: live_uploads_def)
qed

lemma completions_filtered [simp]: "completions (filter (\<lambda>a. \<not> completion a) as) = 0"
  by (induction as) auto

lemma up_step_count:
  assumes "up_step api u e = (u', as)"
  shows "completions as + (if up_live u' then 1 else 0) = (if up_live u then 1 else 0)"
  using up.live_step[OF TrueI _ assms] up.dead_step[OF TrueI _ assms] by (cases "up_live u") auto

interpretation sv: one_shot "sv_step api" sv_wf sv_live for api :: "'l ssh2"
proof unfold_locales
  fix sv sv' :: "'l sftp_save" and e as
  have socket: "sv_wf sv' \<and> sv_remaining sv' = sv_remaining sv \<and> completions as = 0"
    if "sv_wf sv" "sv_step api sv (Sv_socket k ec) = (sv', as)" for k ec
  proof (cases "k < length (sv_uploads sv)")
    case True
    obtain u bs where u: "up_step api ((sv_uploads sv ! k)\<lparr>up_lib := sv_lib sv\<rparr>) (Up_socket ec) = (u, bs)"
      by force
    from up_step_count[OF u] live_uploads_update[OF True, of u] that u True show ?thesis
      by (auto simp: sv_wf_def Let_def split: if_splits)
  qed (use that in simp)
  have callback: "sv_wf sv' \<and> completions as = (if sv_live sv \<and> \<not> sv_live sv' then 1 else 0) \<and>
      (sv_live sv' \<longrightarrow> sv_live sv)"
    if "sv_wf sv" "sv_step api sv Sv_callback = (sv', as)"
    using that by (auto simp: sv_wf_def Let_def split: if_splits)
  have any: "sv_wf sv' \<and> completions as = (if sv_live sv \<and> \<not> sv_live sv' then 1 else 0) \<and>
      (sv_live sv' \<longrightarrow> sv_live sv)"
    if "sv_wf sv" "sv_step api sv e = (sv', as)"
  proof (cases e)
    case (Sv_socket k ec)
    with socket[OF that(1), of k ec] that(2) show ?thesis by (auto simp del: sv_step.simps)
  next
    case Sv_callback
    with callback[OF that(1)] that(2) show ?thesis by simp
  qed
  show "sv_wf sv \<Longrightarrow> sv_step api sv e = (sv', as) \<Longrightarrow> sv_wf sv'" using any by blast
  show "sv_wf sv \<Longrightarrow> sv_live sv \<Longrightarrow> sv_step api sv e = (sv', as) \<Longrightarrow>
      completions as = (if sv_live sv' then 0 else 1)"
    using any by simp
  show "sv_wf sv \<Longrightarrow> \<not> sv_live sv \<Longrightarrow> sv_step api sv e = (sv', as) \<Longrightarrow>
      \<not> sv_live sv' \<and> completions as = 0"
    using any by (metis (no_types, lifting))
qed

lemma sftp_save_loop_wf:
  "sftp_save_loop api resolve p loc files sv = Inr sv' \<Longrightarrow>
   sv_remaining sv = live_uploads (sv_uploads sv) + sv_posted sv + length files \<Longrightarrow>
   sv_wf sv' \<and> sv_remaining sv' = sv_remaining sv"
proof (induction files arbitrary: sv)
  case (Cons f files)
  obtain name content where f: "f = (name, content)" by force
  obtain session l where s: "ssh_session_init api (sv_lib sv) = (session, l)" by force
  let ?d = "SFTPUploadDevice (sp_host p) (full_file_path (sp_path p) name) (sp_user p) (sp_pass p)
            (sp_publickey_file p) (sp_privatekey_file p) (sp_privatekey_pass p) content loc"
  let ?u0 = "\<lparr>up_dev = ?d, up_session = session, up_lib = l, up_wait = None\<rparr>"
  obtain u as where u: "StartSFTPUpload resolve ?u0 = Inr (u, as)"
      and loop: "sftp_save_loop api resolve p loc files (sv_add u as sv) = Inr sv'"
    using Cons.prems(1) f s by (auto split: sum.splits prod.splits)
  have "completions as = (if up_live u then 0 else 1)"
    by (rule StartSFTPUpload_once[OF u]) (simp add: SFTPUploadDevice_def)
  then have "sv_remaining (sv_add u as sv) =
      live_uploads (sv_uploads (sv_add u as sv)) + sv_posted (sv_add u as sv) + length files"
    using Cons.prems(2) by (simp add: sv_add_def)
  from Cons.IH[OF loop this] show ?case by (simp add: sv_add_def)
qed (simp add: sv_wf_def)

lemma SaveASync_cases:
  assumes "SFTPSaver_SaveASync api resolve filename data sfx loc l = Inr (sv, as0)"
  obtains (rejected) "sv = \<lparr>sv_lib = l, sv_uploads = [], sv_remaining = 0, sv_posted = 0\<rparr>" "as0 = [Post_write]"
    | (started) names contents p where "data = Inr (Some (names, contents))" "names \<noteq> []"
        "length names = length contents" "as0 = []"
        "sftp_save_loop api resolve p loc (zip names contents)
           \<lparr>sv_lib = l, sv_uploads = [], sv_remaining = length names, sv_posted = 0\<rparr> = Inr sv"
  using assms
  by (auto simp: SFTPSaver_SaveASync_def Let_def split: sum.splits option.splits prod.splits if_splits)

lemma SaveASync_starts:
  assumes "SFTPSaver_SaveASync api resolve filename data sfx loc l = Inr (sv, as0)"
  shows "sv_wf sv \<and> completions as0 = (if sv_live sv then 0 else 1)"
  using assms
proof (cases rule: SaveASync_cases)
  case (started names contents p)
  have "0 < length names" using started(2) by simp
  with started sftp_save_loop_wf[OF started(5)] show ?thesis by simp
qed (simp add: sv_wf_def)

text \<open>
  C28: whatever data it is given and however its uploads interleave, fail or finish,
  \<open>SFTPSaver::SaveASync\<close> leads to exactly one call of the write callback: at once for
  data it rejects, otherwise when the callback of the last upload has run.
\<close>

theorem sftp_save_completes_once:
  assumes "SFTPSaver_SaveASync api resolve filename data sfx loc l = Inr (sv, as0)"
    and "dev_run (sv_step api) sv es = (sv', as)"
  shows "completions (as0 @ as) = (if sv_remaining sv' = 0 then 1 else 0)"
proof -
  note st = SaveASync_starts[OF assms(1)]
  from sv.started_once[OF conjunct1[OF st] conjunct2[OF st] assms(2)] show ?thesis by simp
qed

lemma sftp_save_completes_once_witness:
  "completions ([Post_write] @ snd (dev_run (sv_step sample_ssh)
     \<lparr>sv_lib = (), sv_uploads = [], sv_remaining = 0, sv_posted = 0\<rparr> [Sv_callback])) = 1"
proof -
  let ?sv = "\<lparr>sv_lib = (), sv_uploads = [], sv_remaining = 0, sv_posted = 0\<rparr>"
  have start: "SFTPSaver_SaveASync sample_ssh (\<lambda>h p. Inr ()) ''u@h/d'' (Inl () :: unit result_type) [] True () =
      Inr (?sv, [Post_write])"
    by (simp add: SFTPSaver_SaveASync_def)
  from sftp_save_completes_once[OF start prod.collapse[symmetric, of "dev_run (sv_step sample_ssh) ?sv [Sv_callback]"]]
  show ?thesis by simp
qed

section \<open>The synchronous save\<close>

text \<open>Every write of some bytes makes progress or fails.\<close>

definition write_progresses :: "'l ssh2 \<Rightarrow> bool" where
  "write_progresses api \<longleftrightarrow> (\<forall>h bs l. bs \<noteq> [] \<longrightarrow> fst (ssh_write api h bs l) \<noteq> 0)"

lemma frees_sync_close [simp]:
  "frees se (sync_close se h f r) = 1" "accepted (sync_close se h f r) = []"
  by (simp_all add: sync_close_def)

lemma sync_write_returns:
  assumes "write_within api" and "write_progresses api" and "tot \<le> length content"
  shows "\<exists>r l' as. sync_write api se f h content tot l = Some (r, l', as) \<and>
    prefix (accepted as) (drop tot content) \<and> frees se as = (if isl r then 1 else 0) \<and>
    (\<not> isl r \<longrightarrow> accepted as = drop tot content)"
  using assms(3)
proof (induction "length content - tot" arbitrary: tot l rule: less_induct)
  case less
  show ?case
  proof (cases "tot < length content")
    case False
    then show ?thesis by (subst sync_write.simps) simp
  next
    case True
    let ?offered = "drop tot content"
    obtain w l1 where w: "ssh_write api h ?offered l = (w, l1)" by force
    have le: "w \<le> int (length ?offered)" and nz: "w \<noteq> 0"
      using assms(1,2) w True unfolding write_within_def write_progresses_def
      by (metis fst_conv, metis fst_conv drop_eq_Nil not_le)
    show ?thesis
    proof (cases "w < 0")
      case True
      then show ?thesis using \<open>tot < length content\<close> w by (subst sync_write.simps) simp
    next
      case False
      have dec: "length content - (tot + nat w) < length content - tot" and bd: "tot + nat w \<le> length content"
        using False nz le True by auto
      from less.hyps[OF dec bd, of l1] obtain r l2 as where
        ih: "sync_write api se f h content (tot + nat w) l1 = Some (r, l2, as)"
          "prefix (accepted as) (drop (tot + nat w) content)" "frees se as = (if isl r then 1 else 0)"
          "\<not> isl r \<longrightarrow> accepted as = drop (tot + nat w) content" by blast
      have split: "take (nat w) ?offered @ drop (tot + nat w) content = ?offered"
        by (metis add.commute append_take_drop_id drop_drop)
      have "sync_write api se f h content tot l = Some (r, l2, Io (Ssh_wrote ?offered w) # as)"
        using True False w ih(1) by (subst sync_write.simps) simp
      moreover have "prefix (take (nat w) ?offered @ accepted as) ?offered"
        using ih(2) split by (metis same_prefix_prefix)
      ultimately show ?thesis using ih(3,4) split by simp
    qed
  qed
qed

text \<open>
  C29: once the connection stands, a synchronous save returns, frees its session exactly
  once on every path and succeeds only if the server has received the whole file,
  provided every write takes at most what it is offered and at least one byte unless
  it fails.
\<close>

theorem sync_save_returns:
  assumes "write_within api" and "write_progresses api" and "fst (ssh_init api l) = 0"
    and "\<forall>h p. \<exists>ep. resolve h p = Inr ep" and "\<forall>ep. connect ep = Inr ()"
  shows "\<exists>r l' as. SFTPSaver_SaveFile api resolve connect filename (Some content) l = Some (r, l', as) \<and>
    frees (fst (ssh_session_init api (snd (ssh_init api l)))) as = 1 \<and>
    prefix (accepted as) content \<and> (r = Inr () \<longrightarrow> accepted as = content)"
proof -
  obtain ok p where p: "parseSFTPUrl filename \<lparr>sp_host = [], sp_path = [], sp_user = [], sp_pass = [],
      sp_publickey_file = [], sp_privatekey_file = [], sp_privatekey_pass = []\<rparr> = Some (ok, p)"
    using sftp_url.returns by fastforce
  obtain l1 where l1: "ssh_init api l = (0, l1)" using assms(3) by (metis prod.collapse)
  obtain rh rp where sp: "split_port (sp_host p) = Some (rh, rp)" using split_port_returns by fastforce
  obtain ep where ep: "resolve rh rp = Inr ep" using assms(4) by blast
  obtain se l2 where se: "ssh_session_init api l1 = (se, l2)" by force
  obtain hs l3 where hs: "ssh_handshake api se l2 = (hs, l3)" by force
  note start = p l1 sp ep se hs assms(5)
  define cred where "cred = (if sp_privatekey_file p \<noteq> []
     then (ssh_publickey_fromfile api se (sp_user p) (sp_privatekey_file p) (Some (sp_privatekey_pass p)) l3,
           Io (Ssh_key (sp_user p) (sp_privatekey_file p) (Some (sp_privatekey_pass p))))
     else if sp_publickey_file p \<noteq> []
     then (ssh_publickey_fromfile api se (sp_user p) (sp_publickey_file p) (Some (sp_privatekey_pass p)) l3,
           Io (Ssh_key (sp_user p) (sp_publickey_file p) (Some (sp_privatekey_pass p))))
     else (ssh_password api se (sp_user p) (sp_pass p) l3, Io (Ssh_pass (sp_user p) (sp_pass p)) :: ssh_act))"
  obtain ar l4 tr where cr: "cred = ((ar, l4), tr)" by (metis prod.collapse)
  then have tr: "accepted_by tr = []" "tr \<noteq> Io (Ssh_free se)"
    by (auto simp: cred_def split: if_splits)
  obtain f l5 where f: "ssh_sftp_init api se l4 = (f, l5)" by force
  obtain h l6 where h: "ssh_open api f (''.'' @ sp_path p) True l5 = (h, l6)" by force
  obtain r l7 as where w: "sync_write api se f h content 0 l6 = Some (r, l7, as)"
      "prefix (accepted as) content" "frees se as = (if isl r then 1 else 0)"
      "\<not> isl r \<longrightarrow> accepted as = content"
    using sync_write_returns[OF assms(1,2), of 0 content se f h l6] by auto
  note eq = SFTPSaver_SaveFile_def[of api resolve connect filename "Some content" l, unfolded Let_def]
  show ?thesis
    using w(2-4) tr
    by (cases "hs \<noteq> 0"; cases "ar \<noteq> 0"; cases "f = 0"; cases "h = 0")
      (auto simp: eq start cred_def[symmetric] cr f h[simplified] w(1) isl_def)
qed

lemma sync_save_returns_witness:
  "\<exists>r l' as. SFTPSaver_SaveFile sample_ssh (\<lambda>h p. Inr ()) (\<lambda>_. Inr ()) ''u:p@h/d/f'' (Some ''abc'') () =
     Some (r, l', as) \<and> frees 1 as = 1"
  using sync_save_returns[OF sample_ssh_within(1), of "()" "\<lambda>h p. Inr ()" "\<lambda>_. Inr ()" "''u:p@h/d/f''" "''abc''"]
  by (auto simp: write_progresses_def sample_ssh_def)

text \<open>
  A library that takes no byte of a write without reporting an error makes the
  synchronous save of a file that is not empty spin for ever.
\<close>

theorem sync_write_spins:
  assumes "\<forall>h bs l. fst (ssh_write api h bs l) = 0" and "tot < length content"
  shows "sync_write api se f h content tot l = None"
proof -
  let ?P = "\<lambda>api se f h (content :: bytes) tot l (y :: (exn + unit) \<times> 'a \<times> ssh_act list).
    (\<forall>h bs l. fst (ssh_write api h bs l) = 0) \<and> tot < length content \<longrightarrow> False"
  have "?P api se f h content tot l res" if "sync_write api se f h content tot l = Some res" for res
  proof (rule sync_write.raw_induct[where P = ?P, OF _ that], intro impI, elim conjE)
    fix rec :: "'a ssh2 \<Rightarrow> nat \<Rightarrow> nat \<Rightarrow> nat \<Rightarrow> bytes \<Rightarrow> nat \<Rightarrow> 'a \<Rightarrow> ((exn + unit) \<times> 'a \<times> ssh_act list) option"
      and api :: "'a ssh2" and se f h and content :: bytes and tot l y
    assume ih: "\<And>api se f h content tot l y. rec api se f h content tot l = Some y \<Longrightarrow> ?P api se f h content tot l y"
      and zero: "\<forall>h bs l. fst (ssh_write api h bs l) = 0" and more: "tot < length content"
    assume "(if tot < length content then
        let offered = drop tot content; written = fst (ssh_write api h offered l);
            l1 = snd (ssh_write api h offered l); wrote = Io (Ssh_wrote offered written)
        in if written < 0
           then Some (Inl (Runtime_error ''SFTP write failed''), l1,
                      wrote # sync_close se h f ''Write failed'')
           else rec api se f h content (tot + nat written) l1 \<bind> (\<lambda>(r, l2, as). Some (r, l2, wrote # as))
      else Some (Inr (), l, [])) = Some y"
    with zero more obtain y' where "rec api se f h content tot (snd (ssh_write api h (drop tot content) l)) = Some y'"
      by (auto simp: Let_def bind_eq_Some_conv)
    from ih[OF this] zero more show False by blast
  qed
  with assms show ?thesis by (cases "sync_write api se f h content tot l") auto
qed

lemma sync_write_spins_witness:
  "sync_write (sample_ssh\<lparr>ssh_write := (\<lambda>_ _ l. (0, l))\<rparr>) 1 2 3 ''a'' 0 () = None"
  by (rule sync_write_spins) simp_all

end
