(* ===== verification/SftpDevice.thy ===== *)
theory SftpDevice
  imports SftpUpload "HOL-Library.Word" "HOL-Library.Signed_Division"
begin

text \<open>
  \<open>SFTPDevice\<close> (\<open>src/SFTPCommon.cpp\<close>, \<open>include/SFTPCommon.hpp\<close>) and \<open>SFTPLoader\<close>: the
  SFTP download. The stages are those of the upload with a size query and reads into a
  buffer of that size at the end. Failures are reported to the status callback and as a
  null result. These files are not part of the library's build.
\<close>

section \<open>The device\<close>

record sftp_device =
  sd_host :: string
  sd_path :: string
  sd_user :: string
  sd_pass :: string
  sd_pubkeyfile :: string
  sd_privkeyfile :: string
  sd_privkeypass :: string
  sd_parse :: bool
  sd_save :: bool
  sd_downloading :: bool
  sd_file_size :: nat

definition SFTPDevice ::
  "string \<Rightarrow> string \<Rightarrow> string \<Rightarrow> string \<Rightarrow> string \<Rightarrow> string \<Rightarrow> string \<Rightarrow> bool \<Rightarrow> bool \<Rightarrow>
   sftp_device" where
  "SFTPDevice host path user pass pubkeyfile privkeyfile privkeypass parse save =
     \<lparr>sd_host = host, sd_path = path, sd_user = user, sd_pass = pass, sd_pubkeyfile = pubkeyfile,
      sd_privkeyfile = privkeyfile, sd_privkeypass = privkeypass, sd_parse = parse, sd_save = save,
      sd_downloading = False, sd_file_size = 0\<rparr>"

text \<open>
  The pending wait. After a partial read and after \<open>EAGAIN\<close> the lambdas differ in the
  message of their error only.
\<close>

datatype sd_wait =
    Sd_connect
  | Sd_handshake
  | Sd_auth
  | Sd_create
  | Sd_open nat
  | Sd_getsize nat nat
  | Sd_getblocks string nat nat bytes nat

record 'l download =
  dw_dev :: sftp_device
  dw_session :: nat
  dw_lib :: 'l
  dw_endpoints :: bool
  dw_wait :: "sd_wait option"

definition dw_pause :: "sd_wait \<Rightarrow> 'l download \<Rightarrow> 'l download" where
  "dw_pause w s = s\<lparr>dw_wait := Some w\<rparr>"

definition dw_fail :: "string \<Rightarrow> ssh_act list \<Rightarrow> 'l download \<Rightarrow> 'l download \<times> ssh_act list" where
  "dw_fail msg cleanup s =
     (s\<lparr>dw_wait := None\<rparr>, Io (Ssh_status False msg) # cleanup @ [Handle_read (Inr None) False False])"

text \<open>\<open>StartSFTPCleanup\<close> of the download does not test for null.\<close>

definition DownloadCleanup :: "nat \<Rightarrow> nat \<Rightarrow> nat \<Rightarrow> ssh_act list" where
  "DownloadCleanup session handle sftp =
     [Io (Ssh_close_handle handle), Io (Ssh_shutdown sftp),
      Io (Ssh_disconnect session ''Normal Shutdown''), Io (Ssh_free session), Io Ssh_exit]"

section \<open>The stages\<close>

text \<open>\<open>int rc\<close>: the \<open>ssize_t\<close> of \<open>libssh2_sftp_read\<close> cut to 32 bits.\<close>

definition c_int :: "int \<Rightarrow> int" where
  "c_int r = sint (word_of_int r :: 32 word)"

definition DownloadGetBlocks ::
  "'l ssh2 \<Rightarrow> nat \<Rightarrow> nat \<Rightarrow> bytes \<Rightarrow> nat \<Rightarrow> 'l download \<Rightarrow> 'l download \<times> ssh_act list" where
  "DownloadGetBlocks api sftp handle buffer totalBytesRead s =
     (let ((r, data), l) = ssh_read api handle (length buffer - totalBytesRead) (dw_lib s);
          s1 = s\<lparr>dw_lib := l\<rparr>;
          rc = c_int r;
          buffer1 = (if 0 < r then take totalBytesRead buffer @ data @
                                   drop (totalBytesRead + length data) buffer else buffer);
          got = Io (Ssh_got rc data)
      in if rc > 0 then
           let tot = totalBytesRead + nat rc
           in if tot \<ge> length buffer1
              then (s1\<lparr>dw_wait := None\<rparr>,
                    [got, Io (Ssh_status True ''SFTP Read Finished''),
                     Handle_read (Inr (Some ([path_filename (sd_path (dw_dev s))], [buffer1])))
                       (sd_parse (dw_dev s)) (sd_save (dw_dev s))])
              else (dw_pause (Sd_getblocks ''SFTP Read Failure. Next Part not obtained''
                                sftp handle buffer1 tot) s1, [got])
         else if rc = LIBSSH2_ERROR_EAGAIN
         then (dw_pause (Sd_getblocks ''SFTP Read Failed. Socket not readable''
                           sftp handle buffer1 totalBytesRead) s1, [got])
         else let (s2, as) = dw_fail ''SFTP Read Failed.''
                               (DownloadCleanup (dw_session s) handle sftp) s1
              in (s2, got # as))"

definition DownloadGetSize :: "'l ssh2 \<Rightarrow> nat \<Rightarrow> nat \<Rightarrow> 'l download \<Rightarrow> 'l download \<times> ssh_act list" where
  "DownloadGetSize api sftp handle s =
     (let fullPath = ''.'' @ sd_path (dw_dev s);
          ((rc, filesize), l) = ssh_stat api sftp fullPath (dw_lib s);
          s1 = s\<lparr>dw_lib := l\<rparr>
      in if rc = 0
         then let s2 = s1\<lparr>dw_dev := (dw_dev s1)\<lparr>sd_file_size := filesize\<rparr>\<rparr>;
                  buffer = replicate filesize (CHR 0x00);
                  (s3, as) = DownloadGetBlocks api sftp handle buffer 0 s2
              in (s3, Io (Ssh_status True ''Reading SFTP File'') # as)
         else if rc = LIBSSH2_ERROR_EAGAIN then (dw_pause (Sd_getsize sftp handle) s1, [])
         else dw_fail ''SFTP File Size does not match'' [] s1)"

definition DownloadOpen :: "'l ssh2 \<Rightarrow> nat \<Rightarrow> 'l download \<Rightarrow> 'l download \<times> ssh_act list" where
  "DownloadOpen api sftp s =
     (let fullPath = ''.'' @ sd_path (dw_dev s);
          (handle, l) = ssh_open api sftp fullPath False (dw_lib s);
          s1 = s\<lparr>dw_lib := l\<rparr>
      in if handle = 0
         then if ssh_last_errno api (dw_session s) l = LIBSSH2_ERROR_EAGAIN
              then (dw_pause (Sd_open sftp) s1, [])
              else dw_fail ''SFTP Open Error'' [] s1
         else let (s2, as) = DownloadGetSize api sftp handle s1
              in (s2, Io (Ssh_opened fullPath) # Io (Ssh_status True ''Getting SFTP File Size'') # as))"

definition DownloadCreate :: "'l ssh2 \<Rightarrow> 'l download \<Rightarrow> 'l download \<times> ssh_act list" where
  "DownloadCreate api s =
     (let (sftp, l) = ssh_sftp_init api (dw_session s) (dw_lib s);
          s1 = s\<lparr>dw_lib := l\<rparr>
      in if sftp = 0
         then if ssh_last_errno api (dw_session s) l = LIBSSH2_ERROR_EAGAIN
              then (dw_pause Sd_create s1, [])
              else dw_fail ''SFTP Create Error'' [] s1
         else let (s2, as) = DownloadOpen api sftp s1
              in (s2, Io (Ssh_status True ''Starting SFTP Open'') # as))"

text \<open>A private key is used without its passphrase (\<open>nullptr\<close>).\<close>

definition download_credentials :: "'l ssh2 \<Rightarrow> nat \<Rightarrow> sftp_device \<Rightarrow> 'l \<Rightarrow> (int \<times> 'l) \<times> ssh_act" where
  "download_credentials api session d l =
     (if sd_privkeyfile d \<noteq> []
      then (ssh_publickey_fromfile api session (sd_user d) (sd_privkeyfile d) None l,
            Io (Ssh_key (sd_user d) (sd_privkeyfile d) None))
      else if sd_pubkeyfile d \<noteq> []
      then (ssh_publickey_fromfile api session (sd_user d) (sd_pubkeyfile d) (Some (sd_privkeypass d)) l,
            Io (Ssh_key (sd_user d) (sd_pubkeyfile d) (Some (sd_privkeypass d))))
      else (ssh_password api session (sd_user d) (sd_pass d) l, Io (Ssh_pass (sd_user d) (sd_pass d))))"

definition DownloadAuth :: "'l ssh2 \<Rightarrow> 'l download \<Rightarrow> 'l download \<times> ssh_act list" where
  "DownloadAuth api s =
     (let ((auth_result, l), tried) = download_credentials api (dw_session s) (dw_dev s) (dw_lib s);
          s1 = s\<lparr>dw_lib := l\<rparr>
      in if auth_result = 0
         then let (s2, as) = DownloadCreate api s1
              in (s2, tried # Io (Ssh_status True ''Creating SFTP Handler'') # as)
         else if auth_result = LIBSSH2_ERROR_EAGAIN then (dw_pause Sd_auth s1, [tried])
         else let (s2, as) = dw_fail ''SFTP Fail, authentication fail'' [] s1 in (s2, tried # as))"

definition DownloadHandshake :: "'l ssh2 \<Rightarrow> 'l download \<Rightarrow> 'l download \<times> ssh_act list" where
  "DownloadHandshake api s =
     (let (rc, l) = ssh_handshake api (dw_session s) (dw_lib s);
          s1 = s\<lparr>dw_lib := l\<rparr>
      in if rc = 0
         then let (s2, as) = DownloadAuth api s1 in (s2, Io (Ssh_status True ''Starting SFTP Auth'') # as)
         else if rc = LIBSSH2_ERROR_EAGAIN then (dw_pause Sd_handshake s1, [])
         else dw_fail ''SFTP Handshake Error'' [] s1)"

definition dw_on_connect :: "'l ssh2 \<Rightarrow> error_code \<Rightarrow> 'l download \<Rightarrow> 'l download \<times> ssh_act list" where
  "dw_on_connect api connect_error s =
     (if \<not> ec_failed connect_error
      then let (s1, as) = DownloadHandshake api s
           in (s1, Io (Ssh_status True ''SFTP SSL Handshake Started'') # as)
      else dw_fail ''SFTP Connection Error'' [] s)"

text \<open>
  \<open>StartSFTPDownload\<close>: the port is always 22. When the name cannot be resolved the
  function reports it and goes on to connect to no endpoint at all.
\<close>

definition StartSFTPDownload ::
  "(string \<Rightarrow> string \<Rightarrow> exn + 'ep) \<Rightarrow> 'l download \<Rightarrow> 'l download \<times> ssh_act list" where
  "StartSFTPDownload resolve s =
     (if sd_downloading (dw_dev s) then (s, [])
      else let s1 = s\<lparr>dw_dev := (dw_dev s)\<lparr>sd_downloading := True\<rparr>\<rparr>
           in case resolve (sd_host (dw_dev s)) ''22'' of
                Inl _ \<Rightarrow> (dw_pause Sd_connect (s1\<lparr>dw_endpoints := False\<rparr>),
                          [Io (Ssh_status False ''SFTP Could not resolve address''),
                           Io (Ssh_status True ''Starting SFTP Connection'')])
              | Inr _ \<Rightarrow> (dw_pause Sd_connect (s1\<lparr>dw_endpoints := True\<rparr>),
                          [Io (Ssh_status True ''Starting SFTP Connection'')]))"

section \<open>The run of a download\<close>

definition dw_handler :: "'l ssh2 \<Rightarrow> sd_wait \<Rightarrow> error_code \<Rightarrow> 'l download \<Rightarrow> 'l download \<times> ssh_act list" where
  "dw_handler api w ec s =
     (case w of
        Sd_connect \<Rightarrow>
          (if dw_endpoints s then dw_on_connect api ec s
           else dw_on_connect api ec_not_found s)
      | Sd_handshake \<Rightarrow>
          if \<not> ec_failed ec then DownloadHandshake api s else dw_fail ''SFTP Handshake Error'' [] s
      | Sd_auth \<Rightarrow>
          if \<not> ec_failed ec then DownloadAuth api s else dw_fail ''SFTP Fail, authentication fail'' [] s
      | Sd_create \<Rightarrow>
          if \<not> ec_failed ec then DownloadCreate api s else dw_fail ''SFTP Create Error'' [] s
      | Sd_open sftp \<Rightarrow>
          if \<not> ec_failed ec then DownloadOpen api sftp s else dw_fail ''SFTP Open Error'' [] s
      | Sd_getsize sftp handle \<Rightarrow>
          if \<not> ec_failed ec then DownloadGetSize api sftp handle s
          else dw_fail ''SFTP File Size does not match'' [] s
      | Sd_getblocks msg sftp handle buffer tot \<Rightarrow>
          if \<not> ec_failed ec then DownloadGetBlocks api sftp handle buffer tot s
          else dw_fail msg (DownloadCleanup (dw_session s) handle sftp) s)"

fun dw_step :: "'l ssh2 \<Rightarrow> 'l download \<Rightarrow> up_event \<Rightarrow> 'l download \<times> ssh_act list" where
  "dw_step api s (Up_socket ec) =
     (case dw_wait s of None \<Rightarrow> (s, []) | Some w \<Rightarrow> dw_handler api w ec (s\<lparr>dw_wait := None\<rparr>))"

section \<open>SFTPLoader\<close>

definition SFTPLoader_LoadFile :: "string \<Rightarrow> string" where
  "SFTPLoader_LoadFile filename = ''Inside the SFTPTLoader::LoadFile Function''"

text \<open>The result of the parser is ignored: a rejected URL is tried all the same.\<close>

definition SFTPLoader_LoadASync ::
  "'l ssh2 \<Rightarrow> (string \<Rightarrow> string \<Rightarrow> exn + 'ep) \<Rightarrow> string \<Rightarrow> bool \<Rightarrow> bool \<Rightarrow> 'l \<Rightarrow>
   exn + (string \<times> 'l download \<times> ssh_act list)" where
  "SFTPLoader_LoadASync api resolve filename parse save l =
     (case parseSFTPUrl filename \<lparr>sp_host = [], sp_path = [], sp_user = [], sp_pass = [],
             sp_publickey_file = [], sp_privatekey_file = [], sp_privatekey_pass = []\<rparr> of
        None \<Rightarrow> Inl Out_of_range
      | Some (_, p) \<Rightarrow>
          let (session, l1) = ssh_session_init api l;
              d = SFTPDevice (sp_host p) (sp_path p) (sp_user p) (sp_pass p) (sp_publickey_file p)
                    (sp_privatekey_file p) (sp_privatekey_pass p) parse save;
              (s, as) = StartSFTPDownload resolve
                \<lparr>dw_dev = d, dw_session = session, dw_lib = l1, dw_endpoints = False, dw_wait = None\<rparr>
          in Inr (''test'', s, as))"

section \<open>One completion per download\<close>

abbreviation dw_live :: "'l download \<Rightarrow> bool" where
  "dw_live s \<equiv> dw_wait s \<noteq> None"

definition dw_once :: "('l download \<Rightarrow> 'l download \<times> ssh_act list) \<Rightarrow> bool" where
  "dw_once f \<longleftrightarrow> (\<forall>s s' as. f s = (s', as) \<longrightarrow> completions as = (if dw_live s' then 0 else 1))"

lemma dw_onceD: "dw_once f \<Longrightarrow> f s = (s', as) \<Longrightarrow> completions as = (if dw_live s' then 0 else 1)"
  unfolding dw_once_def by blast

lemma download_cleanup_history [simp]:
  "completions (DownloadCleanup se h f) = 0" "delivered (DownloadCleanup se h f) = []"
  "\<not> opened (DownloadCleanup se h f)" "frees se (DownloadCleanup se h f) = 1"
  "a \<in> set (DownloadCleanup se h f) \<Longrightarrow> \<not> completion a"
  by (auto simp: DownloadCleanup_def)

lemma dw_once_fail: "completions c = 0 \<Longrightarrow> dw_once (dw_fail msg c)"
  by (simp add: dw_once_def dw_fail_def)

lemma dw_once_blocks: "dw_once (DownloadGetBlocks api f h b t)"
  by (auto simp: dw_once_def DownloadGetBlocks_def dw_fail_def dw_pause_def Let_def
      split: if_splits prod.splits)

lemma dw_once_size: "dw_once (DownloadGetSize api f h)"
  unfolding dw_once_def DownloadGetSize_def Let_def
  by (auto simp: dw_pause_def dw_fail_def dest: dw_onceD[OF dw_once_blocks] split: if_splits prod.splits)

lemma dw_once_open: "dw_once (DownloadOpen api f)"
  unfolding dw_once_def DownloadOpen_def Let_def
  by (auto simp: dw_pause_def dw_fail_def dest: dw_onceD[OF dw_once_size] split: if_splits prod.splits)

lemma dw_once_create: "dw_once (DownloadCreate api)"
  unfolding dw_once_def DownloadCreate_def Let_def
  by (auto simp: dw_pause_def dw_fail_def dest: dw_onceD[OF dw_once_open] split: if_splits prod.splits)

lemma dw_once_auth: "dw_once (DownloadAuth api)"
  unfolding dw_once_def DownloadAuth_def download_credentials_def Let_def
  by (auto simp: dw_pause_def dw_fail_def dest: dw_onceD[OF dw_once_create] split: if_splits prod.splits)

lemma dw_once_handshake: "dw_once (DownloadHandshake api)"
  unfolding dw_once_def DownloadHandshake_def Let_def
  by (auto simp: dw_pause_def dw_fail_def dest: dw_onceD[OF dw_once_auth] split: if_splits prod.splits)

lemma dw_once_connect: "dw_once (dw_on_connect api ec)"
  unfolding dw_once_def dw_on_connect_def Let_def
  by (auto simp: dw_fail_def dest: dw_onceD[OF dw_once_handshake] split: if_splits prod.splits)

lemmas dw_stages_once = dw_once_blocks dw_once_size dw_once_open dw_once_create dw_once_auth
  dw_once_handshake dw_once_connect

lemma dw_once_handler: "dw_once (dw_handler api w ec)"
  unfolding dw_once_def dw_handler_def
  by (auto simp: dw_fail_def dest: dw_stages_once[THEN dw_onceD] split: sd_wait.splits if_splits)

interpretation dw: one_shot "dw_step api" "\<lambda>_. True" dw_live for api :: "'l ssh2"
proof unfold_locales
  fix s :: "'l download" and e s' as
  show True by simp
  show "dw_live s \<Longrightarrow> dw_step api s e = (s', as) \<Longrightarrow> completions as = (if dw_live s' then 0 else 1)"
    by (cases e) (auto dest: dw_onceD[OF dw_once_handler] split: option.splits)
  show "\<not> dw_live s \<Longrightarrow> dw_step api s e = (s', as) \<Longrightarrow> \<not> dw_live s' \<and> completions as = 0"
    by (cases e) (auto split: option.splits)
qed

lemma LoadASync_download_starts:
  assumes "SFTPLoader_LoadASync api resolve filename parse save l = Inr (msg, s, as)"
  shows "completions as = (if dw_live s then 0 else 1)"
  using assms
  by (auto simp: SFTPLoader_LoadASync_def StartSFTPDownload_def SFTPDevice_def dw_pause_def Let_def
      split: option.splits sum.splits prod.splits)


definition sample_download_run :: "unit download" where
  "sample_download_run = dw_pause Sd_connect
     \<lparr>dw_dev = (SFTPDevice ''h'' ''/d/f'' ''u'' ''p'' [] [] [] False True)\<lparr>sd_downloading := True\<rparr>,
      dw_session = 1, dw_lib = (), dw_endpoints = True, dw_wait = None\<rparr>"

lemma sample_download_started:
  "SFTPLoader_LoadASync sample_ssh (\<lambda>h p. Inr ()) ''u:p@h/d/f'' False True () =
     Inr (''test'', sample_download_run, [Io (Ssh_status True ''Starting SFTP Connection'')])"
proof -
  have "parseSFTPUrl ''u:p@h/d/f'' \<lparr>sp_host = [], sp_path = [], sp_user = [], sp_pass = [],
      sp_publickey_file = [], sp_privatekey_file = [], sp_privatekey_pass = []\<rparr> =
    Some (True, \<lparr>sp_host = ''h'', sp_path = ''/d/f'', sp_user = ''u'', sp_pass = ''p'',
      sp_publickey_file = [], sp_privatekey_file = [], sp_privatekey_pass = []\<rparr>)"
    by (simp add: parseSFTPUrl_def split_user_host_def parseSFTPCredentials_def split_user_pass_def
        take_pubkey_def take_privkey_def take_passphrase_def split_host_path_def substr_def Let_def)
  then show ?thesis
    by (simp add: SFTPLoader_LoadASync_def StartSFTPDownload_def SFTPDevice_def sample_ssh_def
        sample_download_run_def dw_pause_def Let_def)
qed


section \<open>What is delivered\<close>

lemma c_int_small: "- (2 ^ 31) \<le> r \<Longrightarrow> r < 2 ^ 31 \<Longrightarrow> c_int r = r"
  unfolding c_int_def by transfer (simp add: signed_take_bit_int_eq_self)

text \<open>
  The history of a download: while blocks are read the buffer starts with the bytes the
  server has delivered; the stat of the server has given a size below 2 GiB.
\<close>

definition dw_same :: "sftp_device \<Rightarrow> nat \<Rightarrow> 'l download \<Rightarrow> bool" where
  "dw_same d se s \<longleftrightarrow> sd_path (dw_dev s) = sd_path d \<and> sd_parse (dw_dev s) = sd_parse d \<and>
     sd_save (dw_dev s) = sd_save d \<and> dw_session s = se"

definition silent :: "ssh_act list \<Rightarrow> bool" where
  "silent h \<longleftrightarrow> completions h = 0"

definition dw_before :: "sftp_device \<Rightarrow> nat \<Rightarrow> 'l download \<Rightarrow> ssh_act list \<Rightarrow> bool" where
  "dw_before d se s h \<longleftrightarrow> dw_same d se s \<and> silent h \<and> delivered h = [] \<and> frees se h = 0"

definition dw_reading :: "sftp_device \<Rightarrow> nat \<Rightarrow> bytes \<Rightarrow> nat \<Rightarrow> 'l download \<Rightarrow> ssh_act list \<Rightarrow> bool" where
  "dw_reading d se buf tot s h \<longleftrightarrow> dw_same d se s \<and> silent h \<and> delivered h = take tot buf \<and>
     tot \<le> length buf \<and> length buf < 2 ^ 31 \<and> frees se h = 0"

definition dw_result :: "sftp_device \<Rightarrow> nat \<Rightarrow> ssh_act list \<Rightarrow> bool" where
  "dw_result d se h \<longleftrightarrow>
     (\<forall>f p v. Handle_read (Inr (Some f)) p v \<in> set h \<longrightarrow>
        f = ([path_filename (sd_path d)], [delivered h]) \<and> p = sd_parse d \<and> v = sd_save d \<and>
        delivered h \<noteq> [] \<and> frees se h = 0)"

definition dw_inv :: "sftp_device \<Rightarrow> nat \<Rightarrow> 'l download \<Rightarrow> ssh_act list \<Rightarrow> bool" where
  "dw_inv d se s h \<longleftrightarrow>
     (case dw_wait s of
        None \<Rightarrow> dw_result d se h
      | Some (Sd_getblocks msg f hdl buf tot) \<Rightarrow> dw_reading d se buf tot s h
      | Some _ \<Rightarrow> dw_before d se s h)"

lemmas dw_inv_defs = dw_inv_def dw_before_def dw_reading_def dw_same_def silent_def

lemma silent_no_result: "silent h \<Longrightarrow> Handle_read r p v \<notin> set h"
  by (induction h) (auto simp: silent_def split: if_splits)

lemma dw_inv_fail:
  assumes "dw_fail msg c s = (s', as)" and "silent h" and "completions c = 0"
  shows "dw_inv d se s' (h @ as)"
  using assms silent_no_result[of h] silent_no_result[of c]
  by (auto simp: dw_fail_def dw_inv_def dw_result_def silent_def)

text \<open>Servers whose files are below 2 GiB.\<close>

definition small_files :: "'l ssh2 \<Rightarrow> bool" where
  "small_files api \<longleftrightarrow> (\<forall>f p l. snd (fst (ssh_stat api f p l)) < 2 ^ 31)"

lemma dw_inv_blocks:
  assumes "read_within api" and "dw_reading d se buf tot s h"
    and "DownloadGetBlocks api f hdl buf tot s = (s', as)"
  shows "dw_inv d se s' (h @ as)"
proof -
  obtain r data l where rd: "ssh_read api hdl (length buf - tot) (dw_lib s) = ((r, data), l)"
    by (metis prod.collapse)
  have contract: "r \<le> int (length buf - tot)" "- (2 ^ 31) \<le> r" "0 < r \<Longrightarrow> int (length data) = r"
    using assms(1) rd unfolding read_within_def by (metis fst_conv snd_conv)+
  have small: "length buf < 2 ^ 31" "tot \<le> length buf" "silent h" using assms(2) by (simp_all add: dw_reading_def)
  have rc: "c_int r = r" using contract small by (intro c_int_small) auto
  note eq = assms(3)[unfolded DownloadGetBlocks_def Let_def rd split_conv fst_conv snd_conv rc, simplified]
  let ?s1 = "s\<lparr>dw_lib := l\<rparr>"
  show ?thesis
  proof (cases "0 < r")
    case True
    let ?buf = "take tot buf @ data @ drop (tot + length data) buf"
    have len: "length data = nat r" "tot + nat r \<le> length buf" using contract True small by auto
    then have lb: "length ?buf = length buf" using small(2) by simp
    have del: "delivered (h @ [Io (Ssh_got r data)]) = take (tot + nat r) ?buf"
      using assms(2) True len small(2) by (simp add: dw_reading_def)
    show ?thesis
    proof (cases "length buf \<le> tot + nat r")
      case full: True
      then have "delivered (h @ [Io (Ssh_got r data)]) = ?buf" using del lb by simp
      moreover have "data \<noteq> []" using len True by auto
      ultimately show ?thesis
        using eq True full lb assms(2) silent_no_result[OF small(3)] len
        by (auto simp: dw_inv_def dw_result_def dw_reading_def dw_same_def)
    next
      case False
      have "dw_reading d se ?buf (tot + nat r) ?s1 (h @ [Io (Ssh_got r data)])"
        using assms(2) del lb small len True unfolding dw_reading_def dw_same_def silent_def by simp
      with eq True False lb len show ?thesis
        by (auto simp: dw_inv_def dw_pause_def dw_reading_def dw_same_def)
    qed
  next
    case False
    have rdg: "dw_reading d se buf tot ?s1 (h @ [Io (Ssh_got r data)])"
      using assms(2) False by (simp add: dw_reading_def dw_same_def silent_def)
    show ?thesis
    proof (cases "r = LIBSSH2_ERROR_EAGAIN")
      case True
      with eq rdg show ?thesis by (auto simp: dw_inv_def dw_pause_def dw_reading_def dw_same_def)
    next
      case nag: False
      with eq False obtain bs where
        bs: "dw_fail ''SFTP Read Failed.'' (DownloadCleanup (dw_session s) hdl f) ?s1 = (s', bs)"
          "as = Io (Ssh_got r data) # bs"
        by (auto split: prod.splits)
      have "silent (h @ [Io (Ssh_got r data)])" using small(3) by (simp add: silent_def)
      from dw_inv_fail[OF bs(1) this] bs(2) show ?thesis by simp
    qed
  qed
qed

lemma dw_before_quiet:
  "dw_before d se s h \<Longrightarrow> completions a = 0 \<Longrightarrow> delivered a = [] \<Longrightarrow> frees se a = 0 \<Longrightarrow>
   dw_before d se s (h @ a)"
  by (simp add: dw_before_def silent_def)

lemma dw_before_lib: "dw_before d se s h \<Longrightarrow> dw_before d se (s\<lparr>dw_lib := l\<rparr>) h"
  by (simp add: dw_before_def dw_same_def)

lemma dw_before_pause:
  "dw_before d se s h \<Longrightarrow> w \<in> {Sd_connect, Sd_handshake, Sd_auth, Sd_create} \<union> range Sd_open \<union>
     {w. \<exists>f hdl. w = Sd_getsize f hdl} \<Longrightarrow> dw_inv d se (dw_pause w s) h"
  by (auto simp: dw_inv_def dw_pause_def dw_before_def dw_same_def)

lemma dw_inv_size:
  assumes "read_within api" and "small_files api" and "dw_before d se s h"
    and "DownloadGetSize api f hdl s = (s', as)"
  shows "dw_inv d se s' (h @ as)"
proof -
  obtain rc n l where st: "ssh_stat api f (''.'' @ sd_path (dw_dev s)) (dw_lib s) = ((rc, n), l)"
    by (metis prod.collapse)
  have n: "n < 2 ^ 31" using assms(2) st unfolding small_files_def by (metis fst_conv snd_conv)
  note before = dw_before_lib[OF assms(3), of l]
  show ?thesis
  proof (cases "rc = 0")
    case True
    let ?s2 = "s\<lparr>dw_lib := l, dw_dev := (dw_dev s)\<lparr>sd_file_size := n\<rparr>\<rparr>"
    obtain bs where b: "DownloadGetBlocks api f hdl (replicate n CHR 0x00) 0 ?s2 = (s', bs)"
        "as = Io (Ssh_status True ''Reading SFTP File'') # bs"
      using True st assms(4) by (auto simp: DownloadGetSize_def Let_def split: prod.splits)
    have "dw_reading d se (replicate n CHR 0x00) 0 ?s2 (h @ [Io (Ssh_status True ''Reading SFTP File'')])"
      using assms(3) n by (simp add: dw_reading_def dw_before_def dw_same_def silent_def)
    from dw_inv_blocks[OF assms(1) this b(1)] b(2) show ?thesis by simp
  next
    case False
    show ?thesis
    proof (cases "rc = LIBSSH2_ERROR_EAGAIN")
      case True
      with False st assms(4) dw_before_pause[OF before, of "Sd_getsize f hdl"] show ?thesis
        by (auto simp: DownloadGetSize_def Let_def)
    next
      case f: False
      with False st assms(4) have "dw_fail ''SFTP File Size does not match'' [] (s\<lparr>dw_lib := l\<rparr>) = (s', as)"
        by (simp add: DownloadGetSize_def Let_def)
      from dw_inv_fail[OF this] assms(3) show ?thesis by (simp add: dw_before_def)
    qed
  qed
qed

lemma dw_inv_open:
  assumes "read_within api" and "small_files api" and "dw_before d se s h"
    and "DownloadOpen api f s = (s', as)"
  shows "dw_inv d se s' (h @ as)"
proof -
  let ?p = "''.'' @ sd_path (dw_dev s)"
  obtain hdl l where o: "ssh_open api f ?p False (dw_lib s) = (hdl, l)" by force
  note before = dw_before_lib[OF assms(3), of l]
  show ?thesis
  proof (cases "hdl = 0")
    case True
    show ?thesis
    proof (cases "ssh_last_errno api (dw_session s) l = LIBSSH2_ERROR_EAGAIN")
      case again: True
      with True o assms(4) dw_before_pause[OF before, of "Sd_open f"] show ?thesis
        by (auto simp: DownloadOpen_def Let_def)
    next
      case False
      with True o assms(4) have "dw_fail ''SFTP Open Error'' [] (s\<lparr>dw_lib := l\<rparr>) = (s', as)"
        by (simp add: DownloadOpen_def Let_def)
      from dw_inv_fail[OF this] assms(3) show ?thesis by (simp add: dw_before_def)
    qed
  next
    case False
    let ?a = "[Io (Ssh_opened ?p), Io (Ssh_status True ''Getting SFTP File Size'')]"
    obtain bs where b: "DownloadGetSize api f hdl (s\<lparr>dw_lib := l\<rparr>) = (s', bs)" "as = ?a @ bs"
      using False o assms(4) by (auto simp: DownloadOpen_def Let_def split: prod.splits)
    have "dw_before d se (s\<lparr>dw_lib := l\<rparr>) (h @ ?a)" by (rule dw_before_quiet[OF before]) simp_all
    from dw_inv_size[OF assms(1,2) this b(1)] b(2) show ?thesis by simp
  qed
qed

lemma dw_inv_create:
  assumes "read_within api" and "small_files api" and "dw_before d se s h"
    and "DownloadCreate api s = (s', as)"
  shows "dw_inv d se s' (h @ as)"
proof -
  obtain f l where o: "ssh_sftp_init api (dw_session s) (dw_lib s) = (f, l)" by force
  note before = dw_before_lib[OF assms(3), of l]
  show ?thesis
  proof (cases "f = 0")
    case True
    show ?thesis
    proof (cases "ssh_last_errno api (dw_session s) l = LIBSSH2_ERROR_EAGAIN")
      case again: True
      with True o assms(4) dw_before_pause[OF before, of Sd_create] show ?thesis
        by (auto simp: DownloadCreate_def Let_def)
    next
      case False
      with True o assms(4) have "dw_fail ''SFTP Create Error'' [] (s\<lparr>dw_lib := l\<rparr>) = (s', as)"
        by (simp add: DownloadCreate_def Let_def)
      from dw_inv_fail[OF this] assms(3) show ?thesis by (simp add: dw_before_def)
    qed
  next
    case False
    let ?a = "[Io (Ssh_status True ''Starting SFTP Open'')]"
    obtain bs where b: "DownloadOpen api f (s\<lparr>dw_lib := l\<rparr>) = (s', bs)" "as = ?a @ bs"
      using False o assms(4) by (auto simp: DownloadCreate_def Let_def split: prod.splits)
    have "dw_before d se (s\<lparr>dw_lib := l\<rparr>) (h @ ?a)" by (rule dw_before_quiet[OF before]) simp_all
    from dw_inv_open[OF assms(1,2) this b(1)] b(2) show ?thesis by simp
  qed
qed

lemma dw_inv_auth:
  assumes "read_within api" and "small_files api" and "dw_before d se s h"
    and "DownloadAuth api s = (s', as)"
  shows "dw_inv d se s' (h @ as)"
proof -
  obtain r l t where c: "download_credentials api (dw_session s) (dw_dev s) (dw_lib s) = ((r, l), t)"
    by (metis prod.collapse)
  have t: "\<not> completion t" "delivered_by t = []" "t \<noteq> Io (Ssh_free se)"
    using c by (auto simp: download_credentials_def split: if_splits)
  have before: "dw_before d se (s\<lparr>dw_lib := l\<rparr>) (h @ [t])"
    by (rule dw_before_quiet[OF dw_before_lib[OF assms(3)]]) (use t in simp_all)
  consider "r = 0" | "r = LIBSSH2_ERROR_EAGAIN" | "r \<noteq> 0" "r \<noteq> LIBSSH2_ERROR_EAGAIN" by blast
  then show ?thesis
  proof cases
    case 1
    let ?a = "[Io (Ssh_status True ''Creating SFTP Handler'')]"
    obtain bs where b: "DownloadCreate api (s\<lparr>dw_lib := l\<rparr>) = (s', bs)" "as = t # ?a @ bs"
      using 1 c assms(4) by (auto simp: DownloadAuth_def Let_def split: prod.splits)
    have "dw_before d se (s\<lparr>dw_lib := l\<rparr>) ((h @ [t]) @ ?a)" by (rule dw_before_quiet[OF before]) simp_all
    from dw_inv_create[OF assms(1,2) this b(1)] b(2) show ?thesis by simp
  next
    case 2
    with c assms(4) dw_before_pause[OF before, of Sd_auth] show ?thesis
      by (auto simp: DownloadAuth_def Let_def)
  next
    case 3
    with c assms(4) obtain bs where
      b: "dw_fail ''SFTP Fail, authentication fail'' [] (s\<lparr>dw_lib := l\<rparr>) = (s', bs)" "as = t # bs"
      by (auto simp: DownloadAuth_def Let_def split: prod.splits)
    have "silent (h @ [t])" using before by (simp add: dw_before_def)
    from dw_inv_fail[OF b(1) this] b(2) show ?thesis by simp
  qed
qed

lemma dw_inv_handshake:
  assumes "read_within api" and "small_files api" and "dw_before d se s h"
    and "DownloadHandshake api s = (s', as)"
  shows "dw_inv d se s' (h @ as)"
proof -
  obtain r l where c: "ssh_handshake api (dw_session s) (dw_lib s) = (r, l)" by force
  note before = dw_before_lib[OF assms(3), of l]
  consider "r = 0" | "r = LIBSSH2_ERROR_EAGAIN" | "r \<noteq> 0" "r \<noteq> LIBSSH2_ERROR_EAGAIN" by blast
  then show ?thesis
  proof cases
    case 1
    let ?a = "[Io (Ssh_status True ''Starting SFTP Auth'')]"
    obtain bs where b: "DownloadAuth api (s\<lparr>dw_lib := l\<rparr>) = (s', bs)" "as = ?a @ bs"
      using 1 c assms(4) by (auto simp: DownloadHandshake_def Let_def split: prod.splits)
    have "dw_before d se (s\<lparr>dw_lib := l\<rparr>) (h @ ?a)" by (rule dw_before_quiet[OF before]) simp_all
    from dw_inv_auth[OF assms(1,2) this b(1)] b(2) show ?thesis by simp
  next
    case 2
    with c assms(4) dw_before_pause[OF before, of Sd_handshake] show ?thesis
      by (auto simp: DownloadHandshake_def Let_def)
  next
    case 3
    with c assms(4) have "dw_fail ''SFTP Handshake Error'' [] (s\<lparr>dw_lib := l\<rparr>) = (s', as)"
      by (simp add: DownloadHandshake_def Let_def)
    from dw_inv_fail[OF this] assms(3) show ?thesis by (simp add: dw_before_def)
  qed
qed

lemma dw_inv_connect:
  assumes "read_within api" and "small_files api" and "dw_before d se s h"
    and "dw_on_connect api ec s = (s', as)"
  shows "dw_inv d se s' (h @ as)"
proof (cases "ec_failed ec")
  case True
  with assms(4) have "dw_fail ''SFTP Connection Error'' [] s = (s', as)" by (simp add: dw_on_connect_def)
  from dw_inv_fail[OF this] assms(3) show ?thesis by (simp add: dw_before_def)
next
  case False
  let ?a = "[Io (Ssh_status True ''SFTP SSL Handshake Started'')]"
  obtain bs where b: "DownloadHandshake api s = (s', bs)" "as = ?a @ bs"
    using False assms(4) by (auto simp: dw_on_connect_def Let_def split: prod.splits)
  have "dw_before d se s (h @ ?a)" by (rule dw_before_quiet[OF assms(3)]) simp_all
  from dw_inv_handshake[OF assms(1,2) this b(1)] b(2) show ?thesis by simp
qed

lemma dw_inv_step:
  assumes "read_within api" and "small_files api" and "dw_inv d se s h"
    and "dw_step api s e = (s', as)"
  shows "dw_inv d se s' (h @ as)"
proof (cases "dw_wait s")
  case None
  with assms(3,4) show ?thesis by (cases e) auto
next
  case (Some w)
  obtain ec where e: "e = Up_socket ec" by (cases e) auto
  let ?s = "s\<lparr>dw_wait := None\<rparr>"
  from assms(4) Some e have handler: "dw_handler api w ec ?s = (s', as)" by simp
  show ?thesis
  proof (cases "\<exists>msg f hdl buf tot. w = Sd_getblocks msg f hdl buf tot")
    case True
    then obtain msg f hdl buf tot where w: "w = Sd_getblocks msg f hdl buf tot" by blast
    have rd: "dw_reading d se buf tot ?s h"
      using assms(3) Some w by (simp add: dw_inv_def dw_reading_def dw_same_def)
    then have "silent h" by (simp add: dw_reading_def)
    with handler w dw_inv_blocks[OF assms(1) rd] dw_inv_fail[of msg _ ?s s' as h] show ?thesis
      by (auto simp: dw_handler_def split: if_splits)
  next
    case False
    have bf: "dw_before d se ?s h"
      using assms(3) Some False by (cases w) (auto simp: dw_inv_def dw_before_def dw_same_def)
    then have "silent h" by (simp add: dw_before_def)
    note stages = dw_inv_connect[OF assms(1,2) bf] dw_inv_handshake[OF assms(1,2) bf]
      dw_inv_auth[OF assms(1,2) bf] dw_inv_create[OF assms(1,2) bf] dw_inv_open[OF assms(1,2) bf]
      dw_inv_size[OF assms(1,2) bf] dw_inv_fail[OF _ \<open>silent h\<close>, of _ "[]"]
    from handler False stages show ?thesis
      by (cases w) (auto simp: dw_handler_def split: if_splits)
  qed
qed



section \<open>The buffer\<close>

lemma c_int_le: "- (2 ^ 31) \<le> r \<Longrightarrow> c_int r \<le> r"
  unfolding c_int_def by transfer (simp add: signed_take_bit_int_less_eq_self_iff)

text \<open>
  While blocks are read the buffer has the size the server gave and the offset lies inside
  it; a result is one file of that size.
\<close>

definition buffer_fits :: "'l download \<Rightarrow> bool" where
  "buffer_fits s = (case dw_wait s of
      Some (Sd_getblocks msg sftp handle buf tot) \<Rightarrow> tot \<le> length buf \<and> length buf = sd_file_size (dw_dev s)
    | _ \<Rightarrow> True)"

fun result_size :: "nat \<Rightarrow> ssh_act \<Rightarrow> bool" where
  "result_size n (Handle_read (Inr (Some f)) p v) = (map length (snd f) = [n])"
| "result_size n _ = True"

definition dw_sized :: "('l download \<Rightarrow> 'l download \<times> ssh_act list) \<Rightarrow> bool" where
  "dw_sized f \<longleftrightarrow> (\<forall>s s' as. f s = (s', as) \<longrightarrow>
     buffer_fits s' \<and> (\<forall>a\<in>set as. result_size (sd_file_size (dw_dev s')) a))"

lemma dw_sizedD:
  "dw_sized f \<Longrightarrow> f s = (s', as) \<Longrightarrow>
   buffer_fits s' \<and> (\<forall>a\<in>set as. result_size (sd_file_size (dw_dev s')) a)"
  unfolding dw_sized_def by blast

lemma result_size_quiet: "\<not> completion a \<Longrightarrow> result_size n a"
  by (cases "(n, a)" rule: result_size.cases) auto

lemma result_size_silent: "silent h \<Longrightarrow> \<forall>a\<in>set h. result_size n a"
  by (induction h) (auto simp: silent_def result_size_quiet split: if_splits)

lemma dw_sized_fail: "silent c \<Longrightarrow> dw_sized (dw_fail msg c)"
  by (auto simp: dw_sized_def dw_fail_def buffer_fits_def dest: result_size_silent)

lemma read_fits:
  assumes "read_within api" and "tot \<le> length buf" and "length buf = sd_file_size (dw_dev s)"
    and "DownloadGetBlocks api f hdl buf tot s = (s', as)"
  shows "buffer_fits s' \<and> (\<forall>a\<in>set as. result_size (sd_file_size (dw_dev s')) a)"
proof -
  obtain r data l where rd: "ssh_read api hdl (length buf - tot) (dw_lib s) = ((r, data), l)"
    by (metis prod.collapse)
  have contract: "r \<le> int (length buf - tot)" "- (2 ^ 31) \<le> r" "0 < r \<Longrightarrow> int (length data) = r"
    using assms(1) rd unfolding read_within_def by (metis fst_conv snd_conv)+
  let ?buf = "if 0 < r then take tot buf @ data @ drop (tot + length data) buf else buf"
  have len: "length ?buf = length buf" using contract(1,3) assms(2) by auto
  have off: "0 < c_int r \<Longrightarrow> tot + nat (c_int r) \<le> length buf"
    using c_int_le[OF contract(2)] contract(1) assms(2) by auto
  note eq = assms(4)[unfolded DownloadGetBlocks_def Let_def rd split_conv fst_conv snd_conv]
  consider "0 < c_int r" | "\<not> 0 < c_int r" "c_int r = LIBSSH2_ERROR_EAGAIN"
    | "\<not> 0 < c_int r" "c_int r \<noteq> LIBSSH2_ERROR_EAGAIN" by blast
  then show ?thesis
  proof cases
    case 1
    with eq len off assms(2,3) show ?thesis
      by (auto simp: buffer_fits_def dw_pause_def simp del: take_append length_append split: if_splits)
  next
    case 2
    with eq len assms(2,3) show ?thesis
      by (auto simp: buffer_fits_def dw_pause_def simp del: take_append length_append)
  next
    case 3
    with eq obtain bs where
      b: "dw_fail ''SFTP Read Failed.'' (DownloadCleanup (dw_session s) hdl f) (s\<lparr>dw_lib := l\<rparr>) = (s', bs)"
        "as = Io (Ssh_got (c_int r) data) # bs"
      by (auto split: prod.splits)
    from dw_sizedD[OF dw_sized_fail b(1)] b(2) show ?thesis by (simp add: silent_def)
  qed
qed

lemma dw_sized_size: "read_within api \<Longrightarrow> dw_sized (DownloadGetSize api f h)"
  unfolding dw_sized_def DownloadGetSize_def Let_def
  by (auto simp: dw_pause_def dw_fail_def buffer_fits_def[of "dw_wait_update _ _"]
      dest!: read_fits[rotated 3] split: if_splits prod.splits)

text \<open>Before the size is known there is no buffer, so the other stages only pass this on.\<close>

lemma dw_sized_open: "read_within api \<Longrightarrow> dw_sized (DownloadOpen api f)"
  unfolding dw_sized_def DownloadOpen_def Let_def
  by (auto simp: dw_pause_def dw_fail_def buffer_fits_def[of "dw_wait_update _ _"]
      dest: dw_sizedD[OF dw_sized_size] split: if_splits prod.splits)

lemma dw_sized_create: "read_within api \<Longrightarrow> dw_sized (DownloadCreate api)"
  unfolding dw_sized_def DownloadCreate_def Let_def
  by (auto simp: dw_pause_def dw_fail_def buffer_fits_def[of "dw_wait_update _ _"]
      dest: dw_sizedD[OF dw_sized_open] split: if_splits prod.splits)

lemma dw_sized_auth: "read_within api \<Longrightarrow> dw_sized (DownloadAuth api)"
  unfolding dw_sized_def DownloadAuth_def download_credentials_def Let_def
  by (auto simp: dw_pause_def dw_fail_def buffer_fits_def[of "dw_wait_update _ _"]
      dest: dw_sizedD[OF dw_sized_create] split: if_splits prod.splits)

lemma dw_sized_handshake: "read_within api \<Longrightarrow> dw_sized (DownloadHandshake api)"
  unfolding dw_sized_def DownloadHandshake_def Let_def
  by (auto simp: dw_pause_def dw_fail_def buffer_fits_def[of "dw_wait_update _ _"]
      dest: dw_sizedD[OF dw_sized_auth] split: if_splits prod.splits)

lemma dw_sized_connect: "read_within api \<Longrightarrow> dw_sized (dw_on_connect api ec)"
  unfolding dw_sized_def dw_on_connect_def Let_def
  by (auto simp: dw_fail_def buffer_fits_def[of "dw_wait_update _ _"]
      dest: dw_sizedD[OF dw_sized_handshake] split: if_splits prod.splits)

definition dw_bound :: "'l download \<Rightarrow> ssh_act list \<Rightarrow> bool" where
  "dw_bound s h \<longleftrightarrow> buffer_fits s \<and> (dw_live s \<longrightarrow> silent h) \<and>
     (\<forall>a\<in>set h. result_size (sd_file_size (dw_dev s)) a)"

lemma dw_bound_step:
  assumes "read_within api" and "dw_bound s h" and "dw_step api s e = (s', as)"
  shows "dw_bound s' (h @ as)"
proof (cases "dw_wait s")
  case None
  with assms(2,3) show ?thesis by (cases e) simp
next
  case (Some w)
  obtain ec where e: "e = Up_socket ec" by (cases e) auto
  let ?s = "s\<lparr>dw_wait := None\<rparr>"
  from assms(3) Some e have handler: "dw_handler api w ec ?s = (s', as)" by simp
  have h: "silent h" using assms(2) Some by (simp add: dw_bound_def)
  note stages = dw_sized_size dw_sized_open dw_sized_create dw_sized_auth dw_sized_handshake dw_sized_connect
  have "buffer_fits s' \<and> (\<forall>a\<in>set as. result_size (sd_file_size (dw_dev s')) a)"
  proof (cases "\<exists>msg f hdl buf tot. w = Sd_getblocks msg f hdl buf tot")
    case True
    then obtain msg f hdl buf tot where w: "w = Sd_getblocks msg f hdl buf tot" by blast
    have "tot \<le> length buf" "length buf = sd_file_size (dw_dev ?s)"
      using assms(2) Some w by (simp_all add: dw_bound_def buffer_fits_def)
    note rd = read_fits[OF assms(1) this]
    have "silent (DownloadCleanup (dw_session ?s) hdl f)" by (simp add: silent_def)
    note fl = dw_sizedD[OF dw_sized_fail[OF this], of msg ?s s' as]
    from handler w rd[of f hdl s' as] fl show ?thesis
      by (simp add: dw_handler_def split: if_splits)
  next
    case False
    have "silent []" by (simp add: silent_def)
    note fl = dw_sizedD[OF dw_sized_fail[OF this]]
    from False handler stages[OF assms(1), THEN dw_sizedD] fl show ?thesis
      by (cases w) (simp_all add: dw_handler_def split: if_splits)
  qed
  moreover have "dw_live s' \<Longrightarrow> silent (h @ as)"
    using dw_onceD[OF dw_once_handler handler] h by (simp add: silent_def)
  ultimately show ?thesis
    using result_size_silent[OF h] by (auto simp: dw_bound_def)
qed

text \<open>
  C27: in every state of an SFTP download that reads blocks, the buffer has the size the
  server's stat has given and the offset of the next read is inside it, so that a read
  never asks for room beyond the buffer; and what is delivered is one file of that size.
  This holds for files of every size, also where the 32-bit \<open>int rc\<close> cuts the number of
  bytes of a read.
\<close>

theorem download_stays_in_buffer:
  assumes "read_within api"
    and "StartSFTPDownload resolve s0 = (s, as0)" and "\<not> sd_downloading (dw_dev s0)"
    and "dev_run (dw_step api) s es = (s', as)"
  shows "(case dw_wait s' of
       Some (Sd_getblocks msg sftp handle buf tot) \<Rightarrow> tot \<le> length buf \<and> length buf = sd_file_size (dw_dev s')
     | _ \<Rightarrow> True) \<and>
    (\<forall>ps bs p v. Handle_read (Inr (Some (ps, bs))) p v \<in> set (as0 @ as) \<longrightarrow>
       map length bs = [sd_file_size (dw_dev s')])"
proof -
  have start: "dw_bound s as0" using assms(2,3)
    by (auto simp: StartSFTPDownload_def dw_pause_def dw_bound_def buffer_fits_def silent_def Let_def
        split: sum.splits)
  from dev_run_history[where I = dw_bound and Q = "\<lambda>_. True", OF assms(4) start]
    dw_bound_step[OF assms(1)]
  have "dw_bound s' (as0 @ as)" by blast
  then show ?thesis unfolding dw_bound_def buffer_fits_def by force
qed

lemma download_stays_in_buffer_witness:
  "let s' = fst (dev_run (dw_step (sample_ssh\<lparr>ssh_stat := (\<lambda>f p l. ((0, 3), l))\<rparr>)) sample_download_run
       [Up_socket ec_success])
   in case dw_wait s' of
        Some (Sd_getblocks msg sftp handle buf tot) \<Rightarrow> tot = 2 \<and> length buf = 3 \<and> sd_file_size (dw_dev s') = 3
      | _ \<Rightarrow> False"
proof -
  let ?api = "sample_ssh\<lparr>ssh_stat := (\<lambda>f p l. ((0, 3), l))\<rparr>"
  let ?r = "dev_run (dw_step ?api) sample_download_run [Up_socket ec_success]"
  let ?s0 = "\<lparr>dw_dev = SFTPDevice ''h'' ''/d/f'' ''u'' ''p'' [] [] [] False True,
      dw_session = 1, dw_lib = (), dw_endpoints = True, dw_wait = None\<rparr>"
  have start: "StartSFTPDownload (\<lambda>h p. Inr ()) ?s0 =
      (sample_download_run, [Io (Ssh_status True ''Starting SFTP Connection'')])"
    by (simp add: StartSFTPDownload_def sample_download_run_def SFTPDevice_def dw_pause_def Let_def)
  have api: "read_within ?api" using sample_ssh_within(2) by (simp add: read_within_def)
  have two: "c_int 2 = 2" by (rule c_int_small) simp_all
  have "\<exists>msg sftp handle buf. dw_wait (fst ?r) = Some (Sd_getblocks msg sftp handle buf 2) \<and>
      sd_file_size (dw_dev (fst ?r)) = 3"
    by (simp add: sample_download_run_def SFTPDevice_def sample_ssh_def dw_pause_def dw_handler_def
        dw_on_connect_def DownloadHandshake_def DownloadAuth_def download_credentials_def
        DownloadCreate_def DownloadOpen_def DownloadGetSize_def DownloadGetBlocks_def
        path_filename_def two numeral_3_eq_3 Let_def)
  then obtain msg sftp handle buf where w: "dw_wait (fst ?r) = Some (Sd_getblocks msg sftp handle buf 2)"
      "sd_file_size (dw_dev (fst ?r)) = 3" by blast
  from download_stays_in_buffer[OF api start _ prod.collapse[symmetric, of ?r]] w show ?thesis
    by (simp add: SFTPDevice_def Let_def)
qed

section \<open>Credentials\<close>

text \<open>
  For a URL that names a private key with a passphrase, the upload authenticates with
  that key and passphrase, the download with the same key and no passphrase: a file
  behind such a key can be saved but not loaded.
\<close>

theorem sftp_download_ignores_passphrase:
  assumes "parseSFTPUrl (user @ '':privkey_identifier:'' @ kfile @ ''key_passphrase'' @ phrase
            @ ''@'' @ host @ ''/'' @ path) out = Some (ok, p)"
    and "CHR ''@'' \<notin> set user" "CHR '':'' \<notin> set user"
    and "CHR ''@'' \<notin> set kfile" "CHR ''k'' \<notin> set kfile" "kfile \<noteq> []"
    and "CHR ''@'' \<notin> set phrase"
    and "\<not> sublist ''pubkey_identifier''
           (''privkey_identifier:'' @ kfile @ ''key_passphrase'' @ phrase)"
    and "host \<noteq> []" "CHR ''/'' \<notin> set host"
  shows "snd (upload_credentials api se (SFTPUploadDevice (sp_host p) (sp_path p) (sp_user p) (sp_pass p)
            (sp_publickey_file p) (sp_privatekey_file p) (sp_privatekey_pass p) content loc) l) =
      Io (Ssh_key user kfile (Some phrase)) \<and>
    snd (download_credentials api se (SFTPDevice (sp_host p) (sp_path p) (sp_user p) (sp_pass p)
            (sp_publickey_file p) (sp_privatekey_file p) (sp_privatekey_pass p) pa sa) l) =
      Io (Ssh_key user kfile None)"
proof -
  have "p = \<lparr>sp_host = host, sp_path = ''/'' @ path, sp_user = user, sp_pass = [],
      sp_publickey_file = [], sp_privatekey_file = kfile, sp_privatekey_pass = phrase\<rparr>"
    using parseSFTPUrl_privkey_parts[OF assms(2-10), of path out] assms(1) by simp
  with assms(6) show ?thesis
    by (simp add: upload_credentials_def download_credentials_def SFTPUploadDevice_def SFTPDevice_def)
qed

definition sftp_parts_empty :: sftp_parts where
  "sftp_parts_empty = \<lparr>sp_host = [], sp_path = [], sp_user = [], sp_pass = [],
     sp_publickey_file = [], sp_privatekey_file = [], sp_privatekey_pass = []\<rparr>"

lemma sftp_download_ignores_passphrase_witness:
  "\<exists>p. parseSFTPUrl (''u'' @ '':privkey_identifier:'' @ ''/f'' @ ''key_passphrase'' @ ''w''
      @ ''@'' @ ''h'' @ ''/'' @ ''p'') sftp_parts_empty = Some (True, p) \<and>
    snd (download_credentials sample_ssh 1 (SFTPDevice (sp_host p) (sp_path p) (sp_user p) (sp_pass p)
       (sp_publickey_file p) (sp_privatekey_file p) (sp_privatekey_pass p) False False) ()) =
      Io (Ssh_key ''u'' ''/f'' None)"
proof -
  have np: "\<not> sublist ''pubkey_identifier'' (''privkey_identifier:'' @ ''/f'' @ ''key_passphrase'' @ ''w'')"
    using str_find_None_iff[of "''pubkey_identifier''" "''privkey_identifier:'' @ ''/f'' @ ''key_passphrase'' @ ''w''"]
    by simp
  obtain p where p: "parseSFTPUrl (''u'' @ '':privkey_identifier:'' @ ''/f'' @ ''key_passphrase'' @ ''w''
      @ ''@'' @ ''h'' @ ''/'' @ ''p'') sftp_parts_empty = Some (True, p)"
    using parseSFTPUrl_privkey_parts[OF _ _ _ _ _ _ np, of "''u''" "''h''" "''p''" sftp_parts_empty] by simp
  with sftp_download_ignores_passphrase[OF p _ _ _ _ _ _ np, of sample_ssh 1 "[]" False "()" False False]
  show ?thesis by simp
qed

end
