(* ===== verification/Logger.thy ===== *)
theory Logger
  imports AsyncPrelude
begin

text \<open>
  \<open>src/asiomgr-logger.cpp\<close>: the loggers of the components. spdlog is a library: its
  registry is a state \<open>'g\<close>, its functions are the fields of a record, and a creation can
  throw (a name that is taken, a file that cannot be opened).
\<close>

record ('g, 'l) spdlog =
  sl_get :: "string \<Rightarrow> 'g \<Rightarrow> 'l option"
  sl_basic_logger_mt :: "string \<Rightarrow> string \<Rightarrow> 'g \<Rightarrow> (exn + 'l) \<times> 'g"
  sl_stdout_color_mt :: "string \<Rightarrow> 'g \<Rightarrow> (exn + 'l) \<times> 'g"
  sl_set_pattern :: "'l \<Rightarrow> string \<Rightarrow> 'g \<Rightarrow> 'g"

definition setGlobalPattern :: "('g, 'l) spdlog \<Rightarrow> 'l \<Rightarrow> 'g \<Rightarrow> 'g" where
  "setGlobalPattern sp logger g = sl_set_pattern sp logger ''[%Y-%m-%d %H:%M:%S][%l][%n] %v'' g"

definition setDebugPattern :: "('g, 'l) spdlog \<Rightarrow> 'l \<Rightarrow> 'g \<Rightarrow> 'g" where
  "setDebugPattern sp logger g = sl_set_pattern sp logger ''[%Y-%m-%d %H:%M:%S.%F][th:%t][%l][%n] %v'' g"

text \<open>The function of the anonymous namespace, in the branch for systems other than Android.\<close>

definition makeLogger ::
  "('g, 'l) spdlog \<Rightarrow> string \<Rightarrow> bool \<Rightarrow> string \<Rightarrow> 'g \<Rightarrow> (exn + 'l) \<times> 'g" where
  "makeLogger sp tag debug_mode basepath g =
     (case (if length basepath > 0 then sl_basic_logger_mt sp tag basepath g
            else sl_stdout_color_mt sp tag g) of
        (Inl e, g1) \<Rightarrow> (Inl e, g1)
      | (Inr logger, g1) \<Rightarrow>
          (Inr logger, if debug_mode then setDebugPattern sp logger g1 else setGlobalPattern sp logger g1))"

text \<open>The mutex is held for the whole function, so a call is one step.\<close>

definition createLogger :: "('g, 'l) spdlog \<Rightarrow> string \<Rightarrow> string \<Rightarrow> 'g \<Rightarrow> (exn + 'l) \<times> 'g" where
  "createLogger sp tag basepath g =
     (case sl_get sp tag g of
        Some logger \<Rightarrow> (Inr logger, g)
      | None \<Rightarrow> makeLogger sp tag False basepath g)"

text \<open>
  What spdlog documents: a logger made by a factory function is registered under its name,
  the other names keep theirs, and formatting does not touch the registry.
\<close>

definition spdlog_registers :: "('g, 'l) spdlog \<Rightarrow> bool" where
  "spdlog_registers sp \<longleftrightarrow>
     (\<forall>tag path g l g'. sl_basic_logger_mt sp tag path g = (Inr l, g') \<longrightarrow>
        (\<forall>t. sl_get sp t g' = (if t = tag then Some l else sl_get sp t g))) \<and>
     (\<forall>tag g l g'. sl_stdout_color_mt sp tag g = (Inr l, g') \<longrightarrow>
        (\<forall>t. sl_get sp t g' = (if t = tag then Some l else sl_get sp t g))) \<and>
     (\<forall>l p g t. sl_get sp t (sl_set_pattern sp l p g) = sl_get sp t g)"

lemma makeLogger_registers:
  assumes "spdlog_registers sp" and "makeLogger sp tag debug_mode basepath g = (Inr l, g')"
  shows "sl_get sp t g' = (if t = tag then Some l else sl_get sp t g)"
proof -
  from assms(1) have made:
      "sl_basic_logger_mt sp n path g0 = (Inr k, g1) \<Longrightarrow> sl_get sp u g1 = (if u = n then Some k else sl_get sp u g0)"
      "sl_stdout_color_mt sp n g0 = (Inr k, g1) \<Longrightarrow> sl_get sp u g1 = (if u = n then Some k else sl_get sp u g0)"
      "sl_get sp u (sl_set_pattern sp k p g0) = sl_get sp u g0" for n path g0 k g1 u p
    unfolding spdlog_registers_def by blast+
  from assms(2) show ?thesis
    by (auto simp: makeLogger_def setGlobalPattern_def setDebugPattern_def made
        split: if_splits prod.splits sum.splits)
qed

text \<open>
  \<open>createLogger\<close> makes one logger per tag: a second call with the same tag returns the
  logger of the first and changes nothing, whatever base path it is given, also after
  loggers of other tags have been made.
\<close>

theorem createLogger_one_per_tag:
  assumes "spdlog_registers sp" and "createLogger sp tag path1 g = (Inr l, g1)"
    and "createLogger sp other_tag path2 g1 = (Inr l', g2)"
  shows "createLogger sp tag path3 g2 = (Inr l, g2)"
proof -
  have reg: "sl_get sp t g' = Some l''" if "createLogger sp t p g0 = (Inr l'', g')" for t p g0 g' l''
    using that makeLogger_registers[OF assms(1), of t False p g0 l'' g' t]
    by (auto simp: createLogger_def split: option.splits)
  have keep: "sl_get sp tag g2 = Some l \<or> other_tag = tag"
    using assms(3) makeLogger_registers[OF assms(1), of other_tag False path2 g1 l' g2 tag] reg[OF assms(2)]
    by (auto simp: createLogger_def split: option.splits)
  have "l' = l \<and> g2 = g1" if "other_tag = tag"
    using that assms(3) reg[OF assms(2)] by (simp add: createLogger_def)
  with keep reg[OF assms(2)] have "sl_get sp tag g2 = Some l" by auto
  then show ?thesis by (simp add: createLogger_def)
qed

text \<open>A registry that keeps the names in a list and numbers the loggers by position.\<close>

definition list_spdlog :: "((string \<times> nat) list, nat) spdlog" where
  "list_spdlog =
     \<lparr>sl_get = (\<lambda>t g. map_of g t),
      sl_basic_logger_mt = (\<lambda>t p g. (Inr (length g), (t, length g) # g)),
      sl_stdout_color_mt = (\<lambda>t g. (Inr (length g), (t, length g) # g)),
      sl_set_pattern = (\<lambda>l p g. g)\<rparr>"

lemma createLogger_one_per_tag_witness:
  "createLogger list_spdlog ''FileManager'' ''log.txt'' [(''WSCommon'', 1), (''FileManager'', 0)] =
     (Inr 0, [(''WSCommon'', 1), (''FileManager'', 0)])"
proof -
  have "spdlog_registers list_spdlog" by (simp add: spdlog_registers_def list_spdlog_def)
  moreover have "createLogger list_spdlog ''FileManager'' [] [] = (Inr 0, [(''FileManager'', 0)])"
    "createLogger list_spdlog ''WSCommon'' [] [(''FileManager'', 0)] =
       (Inr 1, [(''WSCommon'', 1), (''FileManager'', 0)])"
    by (simp_all add: createLogger_def makeLogger_def list_spdlog_def setGlobalPattern_def)
  ultimately show ?thesis by (rule createLogger_one_per_tag)
qed

end
