(* ===== verification/ExampleSetup.thy ===== *)
theory ExampleSetup
  imports Logger UrlStringUtil
begin

text \<open>
  The first half of \<open>main\<close> in \<open>example/MNNExample.cpp\<close>: logging, the libp2p host and its
  Bitswap. libp2p, soralog and Bitswap are libraries, a record of functions over their
  state \<open>'g\<close>; what the program does with them is translated: in which order it calls them,
  what it passes, and where a failure becomes an exception. Printing is left out.
\<close>

section \<open>The libraries\<close>

datatype log_level = Level_trace

record protocol_config =
  enable_identify :: bool
  enable_autonat :: bool
  enable_relay :: bool
  enable_holepunch_server :: bool
  enable_holepunch_client :: bool

text \<open>
  Keys, Multiaddresses and peer ids are the types \<open>'k\<close>, \<open>'a\<close> and \<open>'p\<close>; an operation that
  returns an \<open>outcome\<close> or an \<open>optional\<close> gives \<open>None\<close> when it fails. \<open>nl_generateKeys\<close> makes
  the cryptographic providers and an Ed25519 key pair with them, \<open>nl_makeHost\<close> the injector
  with its bindings and the host, whose peer id in base 58 it gives.
\<close>

record ('g, 'l, 'k, 'a, 'p) node_lib =
  nl_spdlog :: "('g, 'l) spdlog"
  nl_set_level :: "'l \<Rightarrow> log_level \<Rightarrow> 'g \<Rightarrow> 'g"
  nl_configure :: "string \<Rightarrow> 'g \<Rightarrow> bool \<times> 'g"
  nl_setLoggingSystem :: "'g \<Rightarrow> 'g"
  nl_generateKeys :: "'g \<Rightarrow> 'k option \<times> 'g"
  nl_makeHost :: "'k \<Rightarrow> 'g \<Rightarrow> (exn + string) \<times> 'g"
  nl_createProtocols :: "protocol_config \<Rightarrow> 'g \<Rightarrow> 'g"
  nl_identify_start :: "'g \<Rightarrow> 'g"
  nl_Multiaddress :: "string \<Rightarrow> 'a option"
  nl_getPeerId :: "'a \<Rightarrow> string option"
  nl_fromBase58 :: "string \<Rightarrow> 'p option"
  nl_listen :: "'a \<Rightarrow> 'g \<Rightarrow> bool \<times> 'g"
  nl_host_start :: "'g \<Rightarrow> 'g"
  nl_bitswap_initialize :: "'g \<Rightarrow> 'g"
  nl_bitswap_logger :: "string \<Rightarrow> 'g \<Rightarrow> (exn + 'l) \<times> 'g"

section \<open>Logging\<close>

definition config_lines :: "string list \<Rightarrow> string" where
  "config_lines ls = concat (map (\<lambda>l. l @ [CHR 0x0A]) ls)"

definition logger_config :: string where
  "logger_config = [CHR 0x0A] @ config_lines
     [CHR 0x23 # '' ----------------'',
      ''sinks:'',
      ''  - name: console'',
      ''    type: console'',
      ''    color: false'',
      ''groups:'',
      ''  - name: main'',
      ''    sink: console'',
      ''    level: info'',
      ''    children:'',
      ''      - name: libp2p'',
      ''        level: trace'',
      ''      - name: bitswap'',
      ''        level: trace'',
      CHR 0x23 # '' ----------------''] @ ''        ''"

definition example_tags :: "string list" where
  "example_tags = [''HTTPCommon'', ''FileManager'', ''IPFSLoader'', ''WSCommon'', ''IPFSCommon'',
     ''FILECommon'', ''IPFSSaver'', ''MNNLoader'']"

fun create_loggers :: "('g, 'l) spdlog \<Rightarrow> string list \<Rightarrow> 'g \<Rightarrow> (exn + 'l list) \<times> 'g" where
  "create_loggers sp [] g = (Inr [], g)"
| "create_loggers sp (t # ts) g =
     (case createLogger sp t [] g of
        (Inl e, g1) \<Rightarrow> (Inl e, g1)
      | (Inr l, g1) \<Rightarrow>
          (case create_loggers sp ts g1 of
             (Inl e, g2) \<Rightarrow> (Inl e, g2)
           | (Inr ls, g2) \<Rightarrow> (Inr (l # ls), g2)))"

text \<open>The result of \<open>configure\<close> is not looked at, nor that of the sample URL.\<close>

definition example_logging :: "('g, 'l, 'k, 'a, 'p) node_lib \<Rightarrow> 'g \<Rightarrow> (exn + unit) \<times> 'g" where
  "example_logging lib g =
     (let (r, g1) = nl_configure lib logger_config g;
          g2 = nl_setLoggingSystem lib g1
      in case getURLComponents ''https://www.example.com/test.jpg''
                \<lparr>up_prefix = [], up_base = [], up_extension = []\<rparr> of
           None \<Rightarrow> (Inl Out_of_range, g2)
         | Some _ \<Rightarrow>
             (case create_loggers (nl_spdlog lib) example_tags g2 of
                (Inl e, g3) \<Rightarrow> (Inl e, g3)
              | (Inr loggers, g3) \<Rightarrow>
                  (Inr (), fold (\<lambda>l. nl_set_level lib l Level_trace) loggers g3)))"

section \<open>The node\<close>

definition example_protocols :: protocol_config where
  "example_protocols =
     \<lparr>enable_identify = True, enable_autonat = False, enable_relay = False,
      enable_holepunch_server = False, enable_holepunch_client = False\<rparr>"

definition bindaddress :: "string \<Rightarrow> string" where
  "bindaddress peer = ''/ip4/'' @ ''0.0.0.0'' @ ''/tcp/'' @ ''40000'' @ ''/p2p/'' @ peer"

text \<open>
  The peer behind an address in text form: \<open>value()\<close> throws where there is no value, the
  missing peer id of an address is dereferenced all the same.
\<close>

definition peer_info :: "('g, 'l, 'k, 'a, 'p) node_lib \<Rightarrow> string \<Rightarrow> exn + ('p \<times> 'a)" where
  "peer_info lib address =
     (case nl_Multiaddress lib address of
        None \<Rightarrow> Inl System_error
      | Some ma \<Rightarrow>
          (case nl_getPeerId lib ma of
             None \<Rightarrow> Inl Undefined_behaviour
           | Some b \<Rightarrow>
               (case nl_fromBase58 lib b of
                  None \<Rightarrow> Inl System_error
                | Some peer_id \<Rightarrow> Inr (peer_id, ma))))"

text \<open>The result of \<open>listen\<close> is not looked at either.\<close>

definition example_node :: "('g, 'l, 'k, 'a, 'p) node_lib \<Rightarrow> 'g \<Rightarrow> (exn + unit) \<times> 'g" where
  "example_node lib g =
     (case nl_generateKeys lib g of
        (None, g1) \<Rightarrow> (Inl System_error, g1)
      | (Some keys, g1) \<Rightarrow>
          (case nl_makeHost lib keys g1 of
             (Inl e, g2) \<Rightarrow> (Inl e, g2)
           | (Inr peer, g2) \<Rightarrow>
               (let g3 = nl_identify_start lib (nl_createProtocols lib example_protocols g2)
                in case peer_info lib (bindaddress peer) of
                     Inl e \<Rightarrow> (Inl e, g3)
                   | Inr (peer_id, ma) \<Rightarrow>
                       (let (listening, g4) = nl_listen lib ma g3;
                            g5 = nl_bitswap_initialize lib (nl_host_start lib g4)
                        in case nl_bitswap_logger lib ''Bitswap'' g5 of
                             (Inl e, g6) \<Rightarrow> (Inl e, g6)
                           | (Inr logger, g6) \<Rightarrow> (Inr (), nl_set_level lib logger Level_trace g6)))))"

definition example_setup :: "('g, 'l, 'k, 'a, 'p) node_lib \<Rightarrow> 'g \<Rightarrow> (exn + unit) \<times> 'g" where
  "example_setup lib g =
     (case example_logging lib g of
        (Inl e, g1) \<Rightarrow> (Inl e, g1)
      | (Inr _, g1) \<Rightarrow> example_node lib g1)"

definition server_address :: string where
  "server_address = ''/ip4/192.168.46.124/tcp/4001/p2p/12D3KooWHsD2QEUS5FzHEyq2bTuwMSEuEvV86wVAc7VaDDKK1NwJ''"

section \<open>The loggers of the set-up\<close>

lemma createLogger_registers:
  assumes "spdlog_registers sp" and "createLogger sp tag path g = (Inr l, g')"
  shows "sl_get sp tag g' = Some l" and "sl_get sp t g = Some k \<Longrightarrow> t \<noteq> tag \<Longrightarrow> sl_get sp t g' = Some k"
    and "sl_get sp tag g = Some k \<Longrightarrow> l = k"
  using assms(2) makeLogger_registers[OF assms(1), of tag False path g l g']
  by (auto simp: createLogger_def split: option.splits)

lemma create_loggers_keep:
  assumes "spdlog_registers sp" and "create_loggers sp ts g = (Inr ls, g')" and "sl_get sp t g = Some k"
  shows "sl_get sp t g' = Some k"
  using assms(2,3)
proof (induction ts arbitrary: g ls)
  case (Cons u ts)
  then obtain l g1 ls' where "createLogger sp u [] g = (Inr l, g1)" "create_loggers sp ts g1 = (Inr ls', g')"
    by (auto split: prod.splits sum.splits)
  with Cons createLogger_registers[OF assms(1)] show ?case by (metis (no_types))
qed simp

text \<open>
  The loggers the program turns to trace are those the components of the library get for
  the same tags, before or after.
\<close>

theorem create_loggers_are_shared:
  assumes "spdlog_registers sp" and "create_loggers sp ts g = (Inr ls, g')"
  shows "length ls = length ts \<and> (\<forall>i<length ts. createLogger sp (ts ! i) path g' = (Inr (ls ! i), g'))"
  using assms(2)
proof (induction ts arbitrary: g ls)
  case (Cons t ts)
  then obtain l g1 ls' where l: "createLogger sp t [] g = (Inr l, g1)"
      and ls: "create_loggers sp ts g1 = (Inr ls', g')" "ls = l # ls'"
    by (auto split: prod.splits sum.splits)
  from create_loggers_keep[OF assms(1) ls(1) createLogger_registers(1)[OF assms(1) l]]
  have "createLogger sp t path g' = (Inr l, g')" by (simp add: createLogger_def)
  with Cons.IH[OF ls(1)] ls(2) show ?case by (auto simp: nth_Cons split: nat.split)
qed simp

end
