(* ===== verification/ExampleProgram.thy ===== *)
theory ExampleProgram
  imports Singletons ExampleSetup
begin

text \<open>
  \<open>main\<close> of \<open>example/MNNExample.cpp\<close>, up to its last call: after the set-up of
  \<open>ExampleSetup\<close> it registers the handlers, hands its Bitswap to the file manager, tells
  Bitswap a provider for every IPFS argument and starts one load per argument; then it runs
  the io_context. An exception ends the program. Printing is left out.
\<close>

text \<open>The CID whose provider is added for one argument; \<open>cid_of\<close> is the CID decoder.\<close>

definition example_provider :: "(string \<Rightarrow> 'c option) \<Rightarrow> string \<Rightarrow> exn + 'c option" where
  "example_provider cid_of file_name =
     (case getURLComponents file_name \<lparr>up_prefix = [], up_base = [], up_extension = []\<rparr> of
        None \<Rightarrow> Inl Out_of_range
      | Some (ok, u) \<Rightarrow>
          if ok \<and> up_prefix u = ''ipfs''
          then (case parseIPFSUrl (up_base u) \<lparr>ip_cid = [], ip_file = []\<rparr> of
                  None \<Rightarrow> Inl Out_of_range
                | Some (True, p) \<Rightarrow> Inr (cid_of (ip_cid p))
                | Some (False, _) \<Rightarrow> Inr None)
          else Inr None)"

fun example_providers :: "(string \<Rightarrow> 'c option) \<Rightarrow> string list \<Rightarrow> (exn + unit) \<times> 'c list" where
  "example_providers cid_of [] = (Inr (), [])"
| "example_providers cid_of (f # fs) =
     (case example_provider cid_of f of
        Inl e \<Rightarrow> (Inl e, [])
      | Inr c \<Rightarrow>
          (let (r, cs) = example_providers cid_of fs
           in (r, (case c of None \<Rightarrow> cs | Some cid \<Rightarrow> cid # cs))))"

text \<open>The loop over the arguments; the callback of argument \<open>i\<close> has the number \<open>i\<close>.\<close>

fun example_loads ::
  "('l, 'p, 's, 'w, 'e) vtable \<Rightarrow> nat \<Rightarrow> nat \<Rightarrow> string list \<Rightarrow>
   ('l, 'p, 's, 'w, 'e) file_manager \<Rightarrow> (exn + unit) \<times> ('l, 'p, 's, 'w, 'e) file_manager" where
  "example_loads vt ioc i [] fm = (Inr (), fm)"
| "example_loads vt ioc i (f # fs) fm =
     (case LoadASync vt f False True ioc i ''ipfs'' fm of
        (Inl e, fm1) \<Rightarrow> (Inl e, fm1)
      | (Inr _, fm1) \<Rightarrow> example_loads vt ioc (Suc i) fs fm1)"

text \<open>Without an argument \<open>main\<close> prints its usage and returns 1.\<close>

definition example_arguments :: "string list \<Rightarrow> nat + string list" where
  "example_arguments argv = (if length argv < 2 then Inl 1 else Inr (tl argv))"

text \<open>
  The result is what \<open>main\<close> returns when \<open>ioc->run()\<close> does; with it come the providers added
  to Bitswap, the state of the libraries and that of the file manager when the loop starts.
\<close>

definition example_main ::
  "('g, 'l, 'k, 'a, 'q) node_lib \<Rightarrow> (string \<Rightarrow> 'c option) \<Rightarrow>
   (loader_object, saver_object, 'w) ipfs_casts \<Rightarrow> (nat \<Rightarrow> string) \<Rightarrow> nat \<Rightarrow>
   (loader_object, parser_object, saver_object, 'w, 'e) vtable \<Rightarrow> nat \<Rightarrow> string list \<Rightarrow> 'g \<Rightarrow> ('w, 'e) library \<Rightarrow>
   (exn + nat) \<times> ('c \<times> 'q \<times> 'a) list \<times> 'g \<times> ('w, 'e) library" where
  "example_main nl cid_of ct gc bitswap vt ioc argv g lib =
     (case example_arguments argv of
        Inl code \<Rightarrow> (Inr code, [], g, lib)
      | Inr file_names \<Rightarrow>
          (case example_setup nl g of
             (Inl e, g1) \<Rightarrow> (Inl e, [], g1, lib)
           | (Inr _, g1) \<Rightarrow>
               (let (ins, fm) = InitializeSingletons lib;
                    fm1 = setBitswap ct gc (Some bitswap) None fm
                in case peer_info nl server_address of
                     Inl e \<Rightarrow> (Inl e, [], g1, ins, fm1)
                   | Inr server \<Rightarrow>
                       (case example_providers cid_of file_names of
                          (Inl e, cids) \<Rightarrow> (Inl e, map (\<lambda>c. (c, server)) cids, g1, ins, fm1)
                        | (Inr _, cids) \<Rightarrow>
                            (case example_loads vt ioc 0 file_names fm1 of
                               (Inl e, fm2) \<Rightarrow> (Inl e, map (\<lambda>c. (c, server)) cids, g1, ins, fm2)
                             | (Inr _, fm2) \<Rightarrow> (Inr 0, map (\<lambda>c. (c, server)) cids, g1, ins, fm2))))))"

text \<open>
  The older \<open>main\<close> of \<open>MNNExample.cpp\<close> does no more than that: the body of its loop is
  commented out, and it returns 0.
\<close>

definition old_example_main :: "string list \<Rightarrow> nat" where
  "old_example_main argv = (case example_arguments argv of Inl code \<Rightarrow> code | Inr file_names \<Rightarrow> 0)"

section \<open>Its outcome\<close>

text \<open>What the arguments contribute to the providers, without the parsers.\<close>

lemma parseIPFSUrl_returns: "\<exists>r. parseIPFSUrl b out = Some r"
  using str_find_SomeD[of "''/''" b]
  by (auto simp: parseIPFSUrl_def substr_def split: option.splits)

lemma example_provider_returns: "\<exists>c. example_provider cid_of f = Inr c"
proof -
  obtain p where "components f = Inr p" using components_returns by blast
  then obtain ok where g: "getURLComponents f \<lparr>up_prefix = [], up_base = [], up_extension = []\<rparr> = Some (ok, p)"
    by (auto simp: components_def split: option.splits)
  obtain ok' q where "parseIPFSUrl (up_base p) \<lparr>ip_cid = [], ip_file = []\<rparr> = Some (ok', q)"
    using parseIPFSUrl_returns by fast
  with g show ?thesis by (cases ok') (auto simp: example_provider_def)
qed

lemma example_providers_return:
  "example_providers cid_of fs = (Inr (), List.map_filter (\<lambda>f. projr (example_provider cid_of f)) fs)"
proof (induction fs)
  case (Cons f fs)
  obtain c where "example_provider cid_of f = Inr c" using example_provider_returns by blast
  with Cons show ?case by (cases c) (simp_all add: List.map_filter_def)
qed (simp add: List.map_filter_def)

lemma example_loads_outcome:
  assumes "\<forall>l b cb w. \<exists>m w'. v_LoadASync vt l b False True ioc cb w = (Inr m, w')"
    and "dom (loaders fm) = P" and "example_loads vt ioc i fs fm = (r, fm')"
  shows "r = (case find (\<lambda>f. prefix_of f \<notin> P) fs of
        None \<Rightarrow> Inr ()
      | Some f \<Rightarrow> Inl (Range_error (''No loader registered for prefix '' @ prefix_of f))) \<and>
    outstandingOperations fm' = outstandingOperations fm + int (length (takeWhile (\<lambda>f. prefix_of f \<in> P) fs))"
  using assms(2,3)
proof (induction fs arbitrary: i fm)
  case (Cons f fs)
  obtain p where p: "components f = Inr p" using components_returns by blast
  then have pre: "prefix_of f = up_prefix p" by (simp add: prefix_of_def)
  show ?case
  proof (cases "loaders fm (up_prefix p)")
    case None
    with Cons.prems p pre show ?thesis by (auto simp: LoadASync_def domIff)
  next
    case (Some l)
    let ?cb = "\<lparr>rc_savetype = ''ipfs'', rc_suffix = up_extension p, rc_finalcall = i\<rparr>"
    obtain m w' where v: "v_LoadASync vt l (up_base p) False True ioc ?cb
        (world (IncrementOutstandingOperations fm)) = (Inr m, w')" using assms(1) by blast
    let ?fm1 = "(IncrementOutstandingOperations fm)\<lparr>world := w'\<rparr>"
    have step: "LoadASync vt f False True ioc i ''ipfs'' fm = (Inr m, ?fm1)"
      using p Some v by (simp add: LoadASync_def)
    have dom1: "dom (loaders ?fm1) = P" using Cons.prems(1) by (simp add: IncrementOutstandingOperations_def)
    have run: "example_loads vt ioc (Suc i) fs ?fm1 = (r, fm')" using Cons.prems(2) step by simp
    from Cons.IH[OF dom1 run] Some pre Cons.prems(1) show ?thesis
      by (auto simp: IncrementOutstandingOperations_def)
  qed
qed simp

lemma loaders_setBitswap [simp]:
  "loaders (setBitswap ct gc b d fm) = loaders fm"
  "outstandingOperations (setBitswap ct gc b d fm) = outstandingOperations fm"
  by (simp_all add: setBitswap_def Let_def split: option.splits)

text \<open>The program without exceptions from its set-up, and what the loop over the arguments starts from.\<close>

definition example_start :: "(loader_object, saver_object, 'w) ipfs_casts \<Rightarrow> (nat \<Rightarrow> string) \<Rightarrow> nat \<Rightarrow> 'w \<Rightarrow>
    (loader_object, parser_object, saver_object, 'w, 'e) file_manager" where
  "example_start ct gc bitswap w =
     setBitswap ct gc (Some bitswap) None (snd (InitializeSingletons (start_of_program w)))"

lemma example_start_simps:
  "loaders (example_start ct gc bitswap w) = [''file'' \<mapsto> MNN_loader, ''https'' \<mapsto> HTTP_loader, ''ipfs'' \<mapsto> IPFS_loader]"
  "outstandingOperations (example_start ct gc bitswap w) = 0"
  by (auto simp: example_start_def init_defs init_register_defs start_of_program_def)

lemma example_main_loads:
  fixes w :: 'w and vt :: "(loader_object, parser_object, saver_object, 'w, 'e) vtable"
  assumes "file_names \<noteq> []" and "example_setup nl g = (Inr (), g1)" and "peer_info nl server_address = Inr server"
    and "example_loads vt ioc 0 file_names (example_start ct gc bitswap w) = (r, fm)"
  shows "\<exists>ins. example_main nl cid_of ct gc bitswap vt ioc (program # file_names) g (start_of_program w) =
    (map_sum (\<lambda>e. e) (\<lambda>_. 0) r,
     map (\<lambda>c. (c, server)) (List.map_filter (\<lambda>f. projr (example_provider cid_of f)) file_names), g1, ins, fm)"
  using assms
  by (cases "InitializeSingletons (start_of_program w) :: (instances \<times> (loader_object, parser_object, saver_object, 'w, 'e) file_manager)")
    (auto simp: example_main_def example_arguments_def example_start_def example_providers_return Let_def neq_Nil_conv split: sum.splits)

text \<open>
  The example program counts one outstanding load per argument, in order, and returns
  0 when every argument has one of the prefixes file, https and ipfs and no loader
  throws; the first argument with another prefix ends it with the exception of
  \<open>LoadASync\<close>, the loads before it still outstanding. The providers it adds are the CIDs
  of its IPFS arguments.
\<close>

theorem example_main_outcome:
  fixes vt :: "(loader_object, parser_object, saver_object, 'w, 'e) vtable"
  assumes "\<forall>l b cb w. \<exists>m w'. v_LoadASync vt l b False True ioc cb w = (Inr m, w')"
    and "file_names \<noteq> []" and "example_setup nl g = (Inr (), g1)" and "peer_info nl server_address = Inr server"
    and "example_main nl cid_of ct gc bitswap vt ioc (program # file_names) g (start_of_program w) = (r, ps, g', ins, fm)"
  shows "r = (case find (\<lambda>f. prefix_of f \<notin> {''file'', ''https'', ''ipfs''}) file_names of
        None \<Rightarrow> Inr 0
      | Some f \<Rightarrow> Inl (Range_error (''No loader registered for prefix '' @ prefix_of f))) \<and>
    outstandingOperations fm =
      int (length (takeWhile (\<lambda>f. prefix_of f \<in> {''file'', ''https'', ''ipfs''}) file_names)) \<and>
    ps = map (\<lambda>c. (c, server)) (List.map_filter (\<lambda>f. projr (example_provider cid_of f)) file_names)"
proof -
  let ?P = "{''file'', ''https'', ''ipfs''}"
  have P: "dom (loaders (example_start ct gc bitswap w)) = ?P" unfolding example_start_simps dom_fun_upd by auto
  obtain r2 fm2 where l: "example_loads vt ioc 0 file_names (example_start ct gc bitswap w) = (r2, fm2)" by force
  from example_main_loads[OF assms(2-4) l, of cid_of program] assms(5)
  have "fm = fm2" "r = map_sum (\<lambda>e. e) (\<lambda>_. 0) r2"
    "ps = map (\<lambda>c. (c, server)) (List.map_filter (\<lambda>f. projr (example_provider cid_of f)) file_names)" by auto
  with example_loads_outcome[OF assms(1) P l] show ?thesis
    by (auto simp: example_start_simps split: option.splits)
qed

text \<open>Libraries that accept everything; an address is its own text and ends in its peer id.\<close>

definition sample_node :: "((string \<times> nat) list, nat, unit, string, nat) node_lib" where
  "sample_node =
     \<lparr>nl_spdlog = list_spdlog, nl_set_level = (\<lambda>_ _ g. g), nl_configure = (\<lambda>_ g. (True, g)),
      nl_setLoggingSystem = (\<lambda>g. g), nl_generateKeys = (\<lambda>g. (Some (), g)),
      nl_makeHost = (\<lambda>_ g. (Inr ''12D3'', g)), nl_createProtocols = (\<lambda>_ g. g),
      nl_identify_start = (\<lambda>g. g), nl_Multiaddress = Some, nl_getPeerId = Some,
      nl_fromBase58 = (\<lambda>b. Some (length b)), nl_listen = (\<lambda>_ g. (True, g)),
      nl_host_start = (\<lambda>g. g), nl_bitswap_initialize = (\<lambda>g. g), nl_bitswap_logger = (\<lambda>_ g. (Inr 99, g))\<rparr>"

lemma sample_node_setup:
  "fst (example_setup sample_node []) = Inr ()" "peer_info sample_node server_address = Inr (85, server_address)"
  by code_simp+

lemma example_main_outcome_witness:
  "fst (example_main sample_node (\<lambda>s. Some s) library_casts (\<lambda>_. []) 9 accepting_handlers 0
     [''prog'', ''ipfs://Qm/f'', ''gopher://x''] [] (start_of_program
     \<lparr>the_ipfs_loader = \<lparr>externalBitswap = None, externalDht = None\<rparr>,
      the_ipfs_saver = \<lparr>saverBitswap = None, saverDht = None\<rparr>\<rparr>)) =
   Inl (Range_error ''No loader registered for prefix gopher'')" (is "fst ?r = _")
proof -
  have pre: "prefix_of ''ipfs://Qm/f'' = ''ipfs''" "prefix_of ''gopher://x'' = ''gopher''" by code_simp+
  obtain r ps g' ins fm where r: "?r = (r, ps, g', ins, fm)" by (metis prod_cases5)
  have ok: "\<forall>l b cb w. \<exists>m w'. v_LoadASync accepting_handlers l b False True 0 cb w = (Inr m, w')"
    by (simp add: accepting_handlers_def)
  have made: "example_setup sample_node [] = (Inr (), snd (example_setup sample_node []))"
    using sample_node_setup(1) by (metis prod.collapse)
  from example_main_outcome[OF ok _ made sample_node_setup(2) r] show ?thesis by (simp add: pre r)
qed

end
