(* ===== verification/ExampleRun.thy ===== *)
theory ExampleRun
  imports ExampleProgram LibraryRuns
begin

text \<open>
  The example program (\<open>example/MNNExample.cpp\<close>) to its end: the loads it has started and
  then \<open>ioc->run()\<close>, which its work guard keeps running until \<open>FileManager\<close> stops the
  io_context. The program has one io_context and makes no further calls while it runs, so
  what happens then are handlers of the local files and callbacks of the other loaders and
  savers, in any order.
\<close>

section \<open>The loads as calls of the library\<close>

fun example_calls :: "nat \<Rightarrow> nat \<Rightarrow> string list \<Rightarrow> 'e library_event list" where
  "example_calls ioc i [] = []"
| "example_calls ioc i (f # fs) = Call_LoadASync f False True ioc i ''ipfs'' # example_calls ioc (Suc i) fs"

lemma LoadASync_keeps:
  assumes "LoadASync vt url parse save ioc k savetype fm = (r, fm')"
  shows "finals fm' = finals fm" "stopped fm' = stopped fm"
    "r = Inr m \<Longrightarrow> outstandingOperations fm' = outstandingOperations fm + 1"
  using assms by (auto simp: LoadASync_def IncrementOutstandingOperations_def Let_def
      split: sum.splits option.splits prod.splits)

lemma example_loads_calls:
  assumes "example_loads vt ioc i fs (lib_fm lib) = (Inr (), fm)"
    and "lib' = library_run vt wrp (example_calls ioc i fs) lib"
  shows "lib_fm lib' = fm \<and> lib_requested lib' = lib_requested lib @ [i..<i + length fs] \<and>
    finals fm = finals (lib_fm lib) \<and> stopped fm = stopped (lib_fm lib) \<and>
    outstandingOperations fm = outstandingOperations (lib_fm lib) + int (length fs)"
  using assms
proof (induction fs arbitrary: i lib)
  case (Cons f fs)
  obtain m fm1 where load: "LoadASync vt f False True ioc i ''ipfs'' (lib_fm lib) = (Inr m, fm1)"
    and loads: "example_loads vt ioc (Suc i) fs fm1 = (Inr (), fm)"
    using Cons.prems(1) by (auto split: prod.splits sum.splits)
  let ?lib1 = "library_step vt wrp (Call_LoadASync f False True ioc i ''ipfs'') lib"
  have one: "lib_fm ?lib1 = fm1" "lib_requested ?lib1 = lib_requested lib @ [i]"
    using load by (simp_all add: Let_def)
  have "lib' = library_run vt wrp (example_calls ioc (Suc i) fs) ?lib1"
    using Cons.prems(2) by (simp add: library_run_def)
  from Cons.IH[OF _ this] loads one(1)
  have "lib_fm lib' = fm \<and> lib_requested lib' = lib_requested ?lib1 @ [Suc i..<Suc i + length fs] \<and>
      finals fm = finals (lib_fm ?lib1) \<and> stopped fm = stopped (lib_fm ?lib1) \<and>
      outstandingOperations fm = outstandingOperations (lib_fm ?lib1) + int (length fs)" by (simp only:)
  moreover have "[i..<i + length (f # fs)] = i # [Suc i..<Suc i + length fs]"
    by (subst upt_conv_Cons) simp_all
  ultimately show ?case unfolding one LoadASync_keeps(1,2)[OF load] LoadASync_keeps(3)[OF load refl]
    by (simp only: append.simps append_assoc list.size of_nat_Suc of_nat_add) simp
qed (simp add: library_run_def)

section \<open>Handlers\<close>

fun handler_event :: "'e library_event \<Rightarrow> bool" where
  "handler_event (Run_handler e) = True"
| "handler_event (Other_read i r parse save) = True"
| "handler_event (Other_write i) = True"
| "handler_event _ = False"

lemma finish_read_requested [simp]:
  "lib_requested (finish_read vt cb ioc r parse save lib) = lib_requested lib"
  by (auto simp: finish_read_def Let_def split: prod.splits sum.splits)

lemma fold_finish_requested [simp]:
  "lib_requested (fold (finish_act vt cb ioc wrap) as lib) = lib_requested lib"
proof (induction as arbitrary: lib)
  case (Cons a as)
  then show ?case by (cases a) simp_all
qed simp

lemma handler_keeps_requests:
  "handler_event e \<Longrightarrow> lib_requested (library_step vt wrp e lib) = lib_requested lib"
proof (cases e)
  case (Run_handler fe)
  then show ?thesis
    by (cases fe) (simp_all add: local_read_def upd_world_def Let_def split: prod.splits)
qed (auto simp: Let_def split: prod.splits)

text \<open>
  What every handler keeps: every final callback asked for is accounted for, the context has
  been stopped only when all of them have been called, and it has been when nothing is left.
\<close>

definition keeps_running :: "nat list \<Rightarrow> ('p, 'e) running_library \<Rightarrow> bool" where
  "keeps_running ks lib \<longleftrightarrow> lib_requested lib = ks \<and> ledger_ok (ledger_of {#} lib) \<and>
     (stopped (lib_fm lib) \<noteq> [] \<longrightarrow> mset (map fst (finals (lib_fm lib))) = mset ks) \<and>
     (owed lib = {#} \<and> lib_leaked lib = [] \<longrightarrow> stopped (lib_fm lib) \<noteq> [])"

lemma keeps_running_step:
  assumes "ledger_step (ledger_of {#} lib) (ledger_of {#} lib')" and "keeps_running ks lib"
    and "lib_requested lib' = lib_requested lib"
  shows "keeps_running ks lib'"
proof -
  note ok = ledger_step_ok[OF assms(1)] and stops = ledger_step_stops[OF assms(1)]
    and called = ledger_step_called[OF assms(1)] and lost = ledger_step_lost[OF assms(1)]
  have more: "prefix (stopped (lib_fm lib)) (stopped (lib_fm lib'))"
    using ledger_step_stopped[OF assms(1)] by (simp add: ledger_of_def)
  have ok': "ledger_ok (ledger_of {#} lib')" using ok assms(2) by (simp add: keeps_running_def)
  have all: "mset ks = mset (map fst (finals (lib_fm lib'))) + finals_of (owed lib') + finals_of (mset (lib_leaked lib'))"
    using ok' assms(2,3) by (simp add: ledger_ok_def ledger_of_def keeps_running_def)
  have "mset (map fst (finals (lib_fm lib'))) = mset ks" if st: "stopped (lib_fm lib') \<noteq> []"
  proof (cases "stopped (lib_fm lib') = stopped (lib_fm lib)")
    case True
    with st assms(2) have "mset (map fst (finals (lib_fm lib))) = mset ks" by (simp add: keeps_running_def)
    moreover have "mset (map fst (finals (lib_fm lib))) \<subseteq># mset (map fst (finals (lib_fm lib')))"
      using called by (auto simp: ledger_of_def prefix_def simp del: mset_map)
    moreover have "mset (map fst (finals (lib_fm lib'))) \<subseteq># mset ks"
      unfolding all by (simp only: add.assoc mset_subset_eq_add_left)
    ultimately show ?thesis by (simp only: subset_mset.antisym)
  next
    case False
    with stops(1) have "owed lib' = {#}" "lib_leaked lib' = []" by (simp_all add: ledger_of_def)
    with all show ?thesis by simp
  qed
  moreover have "stopped (lib_fm lib') \<noteq> []" if "owed lib' = {#}" "lib_leaked lib' = []"
  proof (cases "owed lib = {#}")
    case True
    have "lib_leaked lib = []" using lost that(2) by (simp add: ledger_of_def)
    with True assms(2) have "stopped (lib_fm lib) \<noteq> []" by (simp add: keeps_running_def)
    with more show ?thesis by auto
  next
    case False
    with stops(2) that have "stopped (lib_fm lib') \<noteq> stopped (lib_fm lib)" by (simp add: ledger_of_def)
    with more show ?thesis by auto
  qed
  ultimately show ?thesis using ok' assms(2,3) by (simp add: keeps_running_def)
qed

lemma handlers_keep_running:
  assumes "others_keep_operations other" and "counted {#} lib" and "keeps_running ks lib"
    and "\<forall>e\<in>set es. handler_event e"
  shows "keeps_running ks (library_run (file_vtable assign wrap uuid other) wrp es lib)"
  using assms(2-4)
proof (induction es arbitrary: lib)
  case (Cons e es)
  have "keeps_running ks (library_step (file_vtable assign wrap uuid other) wrp e lib)"
    by (rule keeps_running_step[OF library_step_ledger[OF assms(1) Cons.prems(1)] Cons.prems(2)])
      (use Cons.prems(3) handler_keeps_requests in auto)
  with Cons.IH[OF library_step_counted[OF assms(1) Cons.prems(1)]] Cons.prems(3) show ?case
    by (simp add: library_run_def)
qed (simp add: library_run_def)

section \<open>When the program ends\<close>


text \<open>A local file and a file of another loader: the first is read and saved, the second fails.\<close>

definition still_casts :: "(loader_object, saver_object, 'w) ipfs_casts" where
  "still_casts =
     \<lparr>is_IPFSLoader = (\<lambda>l. l = IPFS_loader), loader_set = (\<lambda>_ _ _ w. w), loader_clear = (\<lambda>_ _ w. (True, w)),
      is_IPFSSaver = (\<lambda>v. v = IPFS_saver), saver_set = (\<lambda>_ _ _ w. w), saver_clear = (\<lambda>_ _ w. (True, w))\<rparr>"

definition example_world :: "unit file_world" where
  "example_world =
     \<lparr>fw_os = put_node [''d'', ''f''] (Regular ''hi'') empty_os, fw_loads = [], fw_saves = [], fw_posted = []\<rparr>"

abbreviation example_lib :: "(parser_object, unit) running_library" where
  "example_lib \<equiv> library_run sample_vtable (\<lambda>_. ()) (example_calls 0 0 [''file:///d/f'', ''https://h/x''])
     (library_start (example_start still_casts (\<lambda>_. []) 9 example_world))"

definition example_handlers :: "unit library_event list" where
  "example_handlers = [Other_read 0 (Inl ()) False False, Run_handler (File_read 0 ec_eof ''hi''), Other_write 0]"


end
